theory Spec2Isabelle
  imports Main
begin

section \<open>The Tic Tac Toe engine of index.js\<close>

text \<open>
  The embedding covers the game subsystem of \<^verbatim>\<open>index.js\<close>: the functions
  \<^verbatim>\<open>getTicTacToeBoardText\<close>, \<^verbatim>\<open>checkTicTacToeWin\<close> and \<^verbatim>\<open>handleTicTacToe\<close>, and the
  table \<^verbatim>\<open>ticTacToeGames\<close>. A JavaScript string is modelled by a \<^typ>\<open>string\<close> whose
  characters are its code units below 256; numbers that are identifiers or cell
  numbers are integers.
\<close>

subsection \<open>Strings\<close>

text \<open>\<^verbatim>\<open>String.prototype.toLowerCase\<close> on code units below 256: the capitals A to Z and the
  Latin-1 capitals (192 to 222 without the multiplication sign 215) move up by 32.\<close>

definition lowerChar :: "char \<Rightarrow> char" where
  "lowerChar c =
     (let n = (of_char c :: nat)
      in if (65 \<le> n \<and> n \<le> 90) \<or> (192 \<le> n \<and> n \<le> 222 \<and> n \<noteq> 215)
         then char_of (n + 32) else c)"

definition toLowerCase :: "string \<Rightarrow> string" where
  "toLowerCase s = map lowerChar s"

text \<open>\<^verbatim>\<open>s.startsWith('@')\<close>.\<close>

definition startsWithAt :: "string \<Rightarrow> bool" where
  "startsWithAt s = (case s of [] \<Rightarrow> False | c # _ \<Rightarrow> c = CHR ''@'')"

text \<open>\<^verbatim>\<open>args[i]\<close>: an index past the end reads \<^verbatim>\<open>undefined\<close>.\<close>

definition argAt :: "string list \<Rightarrow> nat \<Rightarrow> string option" where
  "argAt args i = (if i < length args then Some (args ! i) else None)"

subsection \<open>parseInt\<close>

text \<open>
  \<^verbatim>\<open>parseInt(string)\<close> with no radix, as ECMAScript defines it: leading white space is
  dropped, one sign is read, a following \<^verbatim>\<open>0x\<close> or \<^verbatim>\<open>0X\<close> selects radix 16 (radix 10
  otherwise), and the longest run of digits of that radix is the number; no digit
  gives \<^verbatim>\<open>NaN\<close>, here \<open>None\<close>. The source compares the result with 1 and 9 only,
  so the exact integer stands for the double that JavaScript computes.
\<close>

definition isWhiteSpace :: "char \<Rightarrow> bool" where
  "isWhiteSpace c = ((of_char c :: nat) \<in> {9, 10, 11, 12, 13, 32, 160})"

definition digitValue :: "char \<Rightarrow> nat option" where
  "digitValue c =
     (let n = (of_char c :: nat)
      in if 48 \<le> n \<and> n \<le> 57 then Some (n - 48)
         else if 97 \<le> n \<and> n \<le> 122 then Some (n - 87)
         else if 65 \<le> n \<and> n \<le> 90 then Some (n - 55)
         else None)"

definition isRadixDigit :: "nat \<Rightarrow> char \<Rightarrow> bool" where
  "isRadixDigit r c = (case digitValue c of None \<Rightarrow> False | Some v \<Rightarrow> v < r)"

definition digitsValue :: "nat \<Rightarrow> string \<Rightarrow> int" where
  "digitsValue r z = foldl (\<lambda>a c. a * int r + int (the (digitValue c))) 0 z"

definition hasHexPrefix :: "string \<Rightarrow> bool" where
  "hasHexPrefix s = (take 2 s = ''0x'' \<or> take 2 s = ''0X'')"

definition parseInt :: "string \<Rightarrow> int option" where
  "parseInt inputString =
     (let s = dropWhile isWhiteSpace inputString;
          sign = (if take 1 s = ''-'' then - 1 else 1 :: int);
          s1 = (if take 1 s = ''+'' \<or> take 1 s = ''-'' then drop 1 s else s);
          r = (if hasHexPrefix s1 then 16 else 10 :: nat);
          s2 = (if hasHexPrefix s1 then drop 2 s1 else s1);
          z = takeWhile (isRadixDigit r) s2
      in if z = [] then None else Some (sign * digitsValue r z))"

text \<open>\<^verbatim>\<open>parseInt(args[1])\<close>: \<^verbatim>\<open>undefined\<close> is converted to the string
  \<^verbatim>\<open>"undefined"\<close>, which has no digit.\<close>

definition parseIntArg :: "string option \<Rightarrow> int option" where
  "parseIntArg a = (case a of None \<Rightarrow> parseInt ''undefined'' | Some s \<Rightarrow> parseInt s)"

subsection \<open>The board and the evaluator\<close>

text \<open>The marks \<^verbatim>\<open>'X'\<close> and \<^verbatim>\<open>'O'\<close>.\<close>

datatype mark = MarkX | MarkO

type_synonym cell = "mark option"

type_synonym board = "cell list"

text \<open>\<^verbatim>\<open>board[i]\<close>: a read past the end gives \<^verbatim>\<open>undefined\<close>, which is as falsy as
  the \<^verbatim>\<open>null\<close> of an empty cell.\<close>

definition cellAt :: "board \<Rightarrow> nat \<Rightarrow> cell" where
  "cellAt b i = (if i < length b then b ! i else None)"

datatype result = Winner mark | Draw

definition lines :: "(nat \<times> nat \<times> nat) list" where
  "lines = [(0, 1, 2), (3, 4, 5), (6, 7, 8),
            (0, 3, 6), (1, 4, 7), (2, 5, 8),
            (0, 4, 8), (2, 4, 6)]"

text \<open>The loop over \<^verbatim>\<open>lines\<close>: the first line whose three cells hold the same mark
  returns that mark.\<close>

fun firstLine :: "board \<Rightarrow> (nat \<times> nat \<times> nat) list \<Rightarrow> mark option" where
  "firstLine b [] = None"
| "firstLine b ((i, j, k) # ls) =
     (case cellAt b i of
        None \<Rightarrow> firstLine b ls
      | Some m \<Rightarrow>
          if cellAt b i = cellAt b j \<and> cellAt b i = cellAt b k then Some m
          else firstLine b ls)"

definition checkTicTacToeWin :: "board \<Rightarrow> result option" where
  "checkTicTacToeWin b =
     (case firstLine b lines of
        Some m \<Rightarrow> Some (Winner m)
      | None \<Rightarrow> if list_all (\<lambda>cell. cell \<noteq> None) b then Some Draw else None)"

text \<open>\<^verbatim>\<open>board[i] = v\<close>: a write past the end extends the array. Every board the source
  creates is \<^verbatim>\<open>Array(9).fill(null)\<close> and is written at the indices 0 to 8 only.\<close>

definition setCell :: "board \<Rightarrow> nat \<Rightarrow> mark \<Rightarrow> board" where
  "setCell b i v =
     (if i < length b then b[i := Some v]
      else b @ replicate (i - length b) None @ [Some v])"

subsection \<open>The game record and the table of games\<close>

datatype status = Pending | Active | Ended

text \<open>A player slot \<^verbatim>\<open>{id, name}\<close>; \<^verbatim>\<open>id\<close> is \<^verbatim>\<open>null\<close> until the opponent accepts.\<close>

record player =
  playerId :: "int option"
  name :: string

record players =
  playerX :: player
  playerO :: player

text \<open>\<^verbatim>\<open>players[mark]\<close>.\<close>

definition playerOf :: "players \<Rightarrow> mark \<Rightarrow> player" where
  "playerOf ps m = (case m of MarkX \<Rightarrow> playerX ps | MarkO \<Rightarrow> playerO ps)"

record game =
  board :: board
  currentPlayer :: mark
  players :: players
  status :: status
  messageId :: "int option"

text \<open>\<^verbatim>\<open>ticTacToeGames\<close>, keyed by the chat identifier.\<close>

type_synonym games = "int \<rightharpoonup> game"

text \<open>\<^verbatim>\<open>if (game.messageId)\<close>: \<^verbatim>\<open>null\<close> and 0 are falsy.\<close>

definition truthyId :: "int option \<Rightarrow> bool" where
  "truthyId m = (case m of None \<Rightarrow> False | Some n \<Rightarrow> n \<noteq> 0)"

subsection \<open>Board text\<close>

function showNat :: "nat \<Rightarrow> string" where
  "showNat n =
     (if n < 10 then [char_of (48 + n)]
      else showNat (n div 10) @ [char_of (48 + n mod 10)])"
  by pat_completeness auto
termination
  by (relation "measure id") auto

definition markText :: "mark \<Rightarrow> string" where
  "markText m = (case m of MarkX \<Rightarrow> ''X'' | MarkO \<Rightarrow> ''O'')"

text \<open>\<^verbatim>\<open>board[k] || (k + 1)\<close>.\<close>

definition cellText :: "board \<Rightarrow> nat \<Rightarrow> string" where
  "cellText b k = (case cellAt b k of Some m \<Rightarrow> markText m | None \<Rightarrow> showNat (k + 1))"

definition newline :: string where
  "newline = [CHR 0x0A]"

definition rowText :: "board \<Rightarrow> nat \<Rightarrow> string" where
  "rowText b i =
     '' '' @ cellText b (i * 3) @ '' | '' @ cellText b (i * 3 + 1) @ '' | ''
       @ cellText b (i * 3 + 2) @ '' '' @ newline
       @ (if i < 2 then ''---|---|---'' @ newline else [])"

definition getTicTacToeBoardText :: "board \<Rightarrow> players option \<Rightarrow> string" where
  "getTicTacToeBoardText b ps =
     ''Tic Tac Toe:'' @ newline @ concat (map (rowText b) [0, 1, 2])
       @ (case ps of
            None \<Rightarrow> []
          | Some p \<Rightarrow>
              newline @ ''X: '' @ name (playerX p) @ newline @ ''O: ''
                @ (if name (playerO p) \<noteq> [] then name (playerO p) else ''(Waiting...)'')
                @ newline)"

subsection \<open>Messages and the transport\<close>

text \<open>
  One constructor for each message text of \<^verbatim>\<open>handleTicTacToe\<close>, with the
  interpolated values as arguments. Where a text starts with the board, the board text
  is followed by a line break and then by the sentence quoted here (the source writes
  \<^verbatim>\<open>boardText + "\n" + ...\<close> for a move and \<^verbatim>\<open>`${boardText}\n...`\<close> for the status and
  for the start of the game).
  \<^item> \<open>GameAlreadyInProgress\<close>: "A game is already in progress or pending in this chat!"
  \<^item> \<open>MentionAnOpponent\<close>: "To start a game, mention an opponent: .ttt @username"
  \<^item> \<open>AgainstYourself\<close>: "You can't play Tic Tac Toe against yourself!"
  \<^item> \<open>Invitation opponent user\<close>: "@opponent, user challenges you to Tic Tac Toe! ..."
  \<^item> \<open>NoPendingToAccept\<close>: "No pending game to accept or game already started."
  \<^item> \<open>NotTheChallengedPlayer\<close>: "This challenge is not for you, or you are the challenger."
  \<^item> \<open>ChallengerCannotAccept\<close>: "You started this challenge, waiting for the opponent to accept."
  \<^item> \<open>GameStarted boardText name mark\<close>: the board, then "Game started! It's name's (mark) turn. ..."
  \<^item> \<open>NoPendingToDecline\<close>: "No pending game to decline."
  \<^item> \<open>Declined user\<close>: "user declined/cancelled the Tic Tac Toe challenge."
  \<^item> \<open>NotPartOfChallenge\<close>: "You are not part of this pending challenge."
  \<^item> \<open>NoActiveGame\<close>: "No active game. Start one with .ttt @username or accept a pending challenge."
  \<^item> \<open>NotYourTurn\<close>: "It's not your turn!"
  \<^item> \<open>InvalidMove\<close>: "Invalid move. Choose an empty cell number from 1 to 9."
  \<^item> \<open>ItsADraw boardText\<close>: the board, then "It's a draw!"
  \<^item> \<open>PlayerWins boardText name mark\<close>: the board, then "Player name (mark) wins!"
  \<^item> \<open>Turn boardText name mark\<close>: the board, then "It's name's (mark) turn. ..."
  \<^item> \<open>EndedBy user\<close>: "user has ended the Tic Tac Toe game."
  \<^item> \<open>NotAParticipant\<close>: "Only players in the current game can end it."
  \<^item> \<open>GamePending name\<close>: "Game pending. Waiting for @name to type .ttt accept."
\<close>

datatype message =
    GameAlreadyInProgress
  | MentionAnOpponent
  | AgainstYourself
  | Invitation string string
  | NoPendingToAccept
  | NotTheChallengedPlayer
  | ChallengerCannotAccept
  | GameStarted string string mark
  | NoPendingToDecline
  | Declined string
  | NotPartOfChallenge
  | NoActiveGame
  | NotYourTurn
  | InvalidMove
  | ItsADraw string
  | PlayerWins string string mark
  | Turn string string mark
  | EndedBy string
  | NotAParticipant
  | GamePending string

text \<open>The calls on the bot, in the order the handler makes them.\<close>

datatype action =
    SendMessage message
  | EditMessageText int message
  | DeleteMessage int

text \<open>
  What the transport answers during one call of the handler: \<open>sendResult\<close> is the
  \<^verbatim>\<open>message_id\<close> of the message that the awaited \<^verbatim>\<open>bot.sendMessage\<close> resolves to,
  or \<open>None\<close> when that promise rejects; \<open>editOk\<close> tells whether
  \<^verbatim>\<open>bot.editMessageText\<close> resolves. A \<^verbatim>\<open>sendMessage\<close> that is not awaited and a
  \<^verbatim>\<open>deleteMessage\<close> (whose failure is caught and ignored) never change the control
  flow. Every path of the handler awaits at most one \<^verbatim>\<open>sendMessage\<close>.
\<close>

record io =
  sendResult :: "int option"
  editOk :: bool

text \<open>The table after the call, the calls made on the bot, and whether an exception
  left the handler (a rejected awaited \<^verbatim>\<open>sendMessage\<close>).\<close>

record outcome =
  games :: games
  actions :: "action list"
  thrown :: bool

subsection \<open>handleTicTacToe\<close>

text \<open>A reply that is sent without \<^verbatim>\<open>await\<close>, followed by \<^verbatim>\<open>return\<close>: the table
  stays as it is.\<close>

definition reply :: "games \<Rightarrow> message \<Rightarrow> outcome" where
  "reply gs m = \<lparr>games = gs, actions = [SendMessage m], thrown = False\<rparr>"

text \<open>\<^verbatim>\<open>if (game.messageId) { try { await bot.deleteMessage(...) } catch(e) {} }\<close>.\<close>

definition deleteOld :: "int option \<Rightarrow> action list" where
  "deleteOld m = (case m of None \<Rightarrow> [] | Some n \<Rightarrow> if n \<noteq> 0 then [DeleteMessage n] else [])"

text \<open>Lines 295 to 325, the challenge. The table is written before the invitation is
  sent; \<^verbatim>\<open>game.messageId\<close> is set when the send has resolved.\<close>

definition newGame :: "int \<Rightarrow> string \<Rightarrow> string \<Rightarrow> game" where
  "newGame userId userName opponentUsername =
     \<lparr>board = replicate 9 None,
      currentPlayer = MarkX,
      players = \<lparr>playerX = \<lparr>playerId = Some userId, name = userName\<rparr>,
                 playerO = \<lparr>playerId = None, name = opponentUsername\<rparr>\<rparr>,
      status = Pending,
      messageId = None\<rparr>"

definition challenge ::
  "io \<Rightarrow> games \<Rightarrow> int \<Rightarrow> int \<Rightarrow> string \<Rightarrow> string option \<Rightarrow> string list \<Rightarrow> outcome" where
  "challenge io gs chatId userId userName subCommand args =
     (if (case gs chatId of None \<Rightarrow> False | Some game \<Rightarrow> status game \<noteq> Ended)
      then reply gs GameAlreadyInProgress
      else
        let fromArgs =
              (case argAt args 1 of
                 None \<Rightarrow> None
               | Some a \<Rightarrow> if a \<noteq> [] \<and> startsWithAt a then Some a else None);
            opponentMention =
              (case subCommand of
                 None \<Rightarrow> fromArgs
               | Some s \<Rightarrow> if startsWithAt s then Some s else fromArgs)
        in case opponentMention of
             None \<Rightarrow> reply gs MentionAnOpponent
           | Some mention \<Rightarrow>
               let opponentUsername = drop 1 mention
               in if toLowerCase opponentUsername = toLowerCase userName
                  then reply gs AgainstYourself
                  else
                    let game = newGame userId userName opponentUsername;
                        sent = [SendMessage (Invitation opponentUsername userName)]
                    in case sendResult io of
                         None \<Rightarrow>
                           \<lparr>games = gs(chatId \<mapsto> game), actions = sent, thrown = True\<rparr>
                       | Some invMsg \<Rightarrow>
                           \<lparr>games = gs(chatId \<mapsto> game\<lparr>messageId := Some invMsg\<rparr>),
                            actions = sent, thrown = False\<rparr>)"

text \<open>Lines 327 to 350, accept.\<close>

definition accept :: "io \<Rightarrow> games \<Rightarrow> int \<Rightarrow> int \<Rightarrow> string \<Rightarrow> outcome" where
  "accept io gs chatId userId userName =
     (case gs chatId of
        None \<Rightarrow> reply gs NoPendingToAccept
      | Some game \<Rightarrow>
          if status game \<noteq> Pending then reply gs NoPendingToAccept
          else if toLowerCase (name (playerO (players game))) \<noteq> toLowerCase userName
          then reply gs NotTheChallengedPlayer
          else if playerId (playerX (players game)) = Some userId
          then reply gs ChallengerCannotAccept
          else
            let game1 = game\<lparr>players := (players game)
                                \<lparr>playerO := (playerO (players game))\<lparr>playerId := Some userId\<rparr>\<rparr>,
                              status := Active\<rparr>;
                boardText = getTicTacToeBoardText (board game1) (Some (players game1));
                sent = [SendMessage (GameStarted boardText
                          (name (playerOf (players game1) (currentPlayer game1)))
                          (currentPlayer game1))]
            in case sendResult io of
                 None \<Rightarrow> \<lparr>games = gs(chatId \<mapsto> game1), actions = sent, thrown = True\<rparr>
               | Some turnMsg \<Rightarrow>
                   \<lparr>games = gs(chatId \<mapsto> game1\<lparr>messageId := Some turnMsg\<rparr>),
                    actions = sent @ deleteOld (messageId game1), thrown = False\<rparr>)"

text \<open>Lines 351 to 364, decline.\<close>

definition decline :: "io \<Rightarrow> games \<Rightarrow> int \<Rightarrow> int \<Rightarrow> string \<Rightarrow> outcome" where
  "decline io gs chatId userId userName =
     (case gs chatId of
        None \<Rightarrow> reply gs NoPendingToDecline
      | Some game \<Rightarrow>
          if status game \<noteq> Pending then reply gs NoPendingToDecline
          else if toLowerCase (name (playerO (players game))) = toLowerCase userName
                  \<or> playerId (playerX (players game)) = Some userId
          then
            (case sendResult io of
               None \<Rightarrow>
                 \<lparr>games = gs, actions = [SendMessage (Declined userName)], thrown = True\<rparr>
             | Some _ \<Rightarrow>
                 \<lparr>games = gs(chatId := None),
                  actions = SendMessage (Declined userName) # deleteOld (messageId game),
                  thrown = False\<rparr>)
          else reply gs NotPartOfChallenge)"

text \<open>Lines 401 to 413 and 434 to 444: edit the stored message, or send a new one when
  there is none or the edit fails, and store the new \<^verbatim>\<open>message_id\<close>.\<close>

definition render :: "io \<Rightarrow> games \<Rightarrow> int \<Rightarrow> game \<Rightarrow> message \<Rightarrow> outcome" where
  "render io gs chatId game content =
     (let edit = (case messageId game of
                    None \<Rightarrow> []
                  | Some n \<Rightarrow> if n \<noteq> 0 then [EditMessageText n content] else [])
      in if truthyId (messageId game) \<and> editOk io
         then \<lparr>games = gs(chatId \<mapsto> game), actions = edit, thrown = False\<rparr>
         else
           case sendResult io of
             None \<Rightarrow>
               \<lparr>games = gs(chatId \<mapsto> game), actions = edit @ [SendMessage content],
                thrown = True\<rparr>
           | Some newMsg \<Rightarrow>
               \<lparr>games = gs(chatId \<mapsto> game\<lparr>messageId := Some newMsg\<rparr>),
                actions = edit @ [SendMessage content], thrown = False\<rparr>)"

text \<open>\<^verbatim>\<open>game.currentPlayer === 'X' ? 'O' : 'X'\<close>.\<close>

definition other :: "mark \<Rightarrow> mark" where
  "other m = (if m = MarkX then MarkO else MarkX)"

text \<open>Lines 372 to 417, move, for a game that is active.\<close>

definition move :: "io \<Rightarrow> games \<Rightarrow> int \<Rightarrow> int \<Rightarrow> game \<Rightarrow> string list \<Rightarrow> outcome" where
  "move io gs chatId userId game args =
     (if playerId (playerOf (players game) (currentPlayer game)) \<noteq> Some userId
      then reply gs NotYourTurn
      else
        case parseIntArg (argAt args 1) of
          None \<Rightarrow> reply gs InvalidMove
        | Some n \<Rightarrow>
            if n < 1 \<or> n > 9 \<or> cellAt (board game) (nat (n - 1)) \<noteq> None
            then reply gs InvalidMove
            else
              let game1 = game\<lparr>board := setCell (board game) (nat (n - 1)) (currentPlayer game)\<rparr>;
                  winner = checkTicTacToeWin (board game1);
                  boardText = getTicTacToeBoardText (board game1) (Some (players game1))
              in case winner of
                   Some w \<Rightarrow>
                     let content =
                           (case w of
                              Draw \<Rightarrow> ItsADraw boardText
                            | Winner m \<Rightarrow>
                                PlayerWins boardText (name (playerOf (players game1) m)) m);
                         r = render io gs chatId (game1\<lparr>status := Ended\<rparr>) content
                     in if thrown r then r else r\<lparr>games := (games r)(chatId := None)\<rparr>
                 | None \<Rightarrow>
                     let game2 = game1\<lparr>currentPlayer := other (currentPlayer game1)\<rparr>
                     in render io gs chatId game2
                          (Turn boardText
                             (name (playerOf (players game2) (currentPlayer game2)))
                             (currentPlayer game2)))"

text \<open>Lines 418 to 427, quit or end, for a game that is active. In
  \<^verbatim>\<open>game.players.O.id && game.players.O.id === userId\<close> an identifier 0 is falsy.\<close>

definition quit :: "io \<Rightarrow> games \<Rightarrow> int \<Rightarrow> int \<Rightarrow> string \<Rightarrow> game \<Rightarrow> outcome" where
  "quit io gs chatId userId userName game =
     (if playerId (playerX (players game)) = Some userId
         \<or> (truthyId (playerId (playerO (players game)))
              \<and> playerId (playerO (players game)) = Some userId)
      then
        (case sendResult io of
           None \<Rightarrow> \<lparr>games = gs, actions = [SendMessage (EndedBy userName)], thrown = True\<rparr>
         | Some _ \<Rightarrow>
             \<lparr>games = gs(chatId := None),
              actions = SendMessage (EndedBy userName) # deleteOld (messageId game),
              thrown = False\<rparr>)
      else reply gs NotAParticipant)"

text \<open>Lines 429 to 447, the command with no known sub-command, after the guard of
  line 367 has let the game through.\<close>

definition showStatus :: "io \<Rightarrow> games \<Rightarrow> int \<Rightarrow> game \<Rightarrow> outcome" where
  "showStatus io gs chatId game =
     (if status game = Active
      then render io gs chatId game
             (Turn (getTicTacToeBoardText (board game) (Some (players game)))
                (name (playerOf (players game) (currentPlayer game))) (currentPlayer game))
      else if status game = Pending
      then
        (let sent = [SendMessage (GamePending (name (playerO (players game))))]
         in case sendResult io of
              None \<Rightarrow> \<lparr>games = gs, actions = sent, thrown = True\<rparr>
            | Some _ \<Rightarrow> \<lparr>games = gs, actions = sent, thrown = False\<rparr>)
      else \<lparr>games = gs, actions = [], thrown = False\<rparr>)"

text \<open>\<^verbatim>\<open>args[0] ? args[0].toLowerCase() : null\<close>.\<close>

definition subCommandOf :: "string list \<Rightarrow> string option" where
  "subCommandOf args =
     (case argAt args 0 of
        None \<Rightarrow> None
      | Some a \<Rightarrow> if a = [] then None else Some (toLowerCase a))"

text \<open>The handler: the branches in the order of the source. \<open>chatId\<close>, \<open>userId\<close>
  and \<open>userName\<close> are what the router extracts from the incoming message.\<close>

definition handleTicTacToe ::
  "io \<Rightarrow> games \<Rightarrow> int \<Rightarrow> int \<Rightarrow> string \<Rightarrow> string list \<Rightarrow> outcome" where
  "handleTicTacToe io gs chatId userId userName args =
     (let subCommand = subCommandOf args
      in if (subCommand = Some ''start''
               \<or> (case subCommand of None \<Rightarrow> False | Some s \<Rightarrow> startsWithAt s))
            \<and> (case gs chatId of None \<Rightarrow> True | Some game \<Rightarrow> status game = Ended)
         then challenge io gs chatId userId userName subCommand args
         else if subCommand = Some ''accept'' then accept io gs chatId userId userName
         else if subCommand = Some ''decline'' then decline io gs chatId userId userName
         else
           case gs chatId of
             None \<Rightarrow> reply gs NoActiveGame
           | Some game \<Rightarrow>
               if status game \<noteq> Active then reply gs NoActiveGame
               else if subCommand = Some ''move'' then move io gs chatId userId game args
               else if subCommand = Some ''quit'' \<or> subCommand = Some ''end''
               then quit io gs chatId userId userName game
               else showStatus io gs chatId game)"

subsection \<open>Reachable tables\<close>

text \<open>The table is empty when the process starts; every command runs the handler to
  its end on the table the previous command left.\<close>

inductive reachable :: "games \<Rightarrow> bool" where
  init: "reachable Map.empty"
| step: "reachable gs \<Longrightarrow>
         reachable (games (handleTicTacToe io gs chatId userId userName args))"

subsection \<open>Predicates used in the statements\<close>

text \<open>The three cells of a line hold the mark \<open>m\<close>.\<close>

definition complete :: "board \<Rightarrow> nat \<times> nat \<times> nat \<Rightarrow> mark \<Rightarrow> bool" where
  "complete b l m =
     (case l of (i, j, k) \<Rightarrow>
        cellAt b i = Some m \<and> cellAt b j = Some m \<and> cellAt b k = Some m)"

text \<open>The number of occupied cells, that is, of moves made.\<close>

definition occupied :: "board \<Rightarrow> nat" where
  "occupied b = length (filter (\<lambda>cell. cell \<noteq> None) b)"

text \<open>The test of line 378 on the parsed number:
  \<^verbatim>\<open>isNaN(move) || move < 1 || move > 9 || game.board[move - 1]\<close>.\<close>

definition invalidCell :: "board \<Rightarrow> int option \<Rightarrow> bool" where
  "invalidCell b n =
     (case n of None \<Rightarrow> True | Some k \<Rightarrow> k < 1 \<or> k > 9 \<or> cellAt b (nat (k - 1)) \<noteq> None)"

text \<open>The guards of lines 367 to 381 that a move command has to pass: the game is active,
  the sender holds the mark to move, and the parsed number is from 1 to 9 and names an
  empty cell.\<close>

definition validMove :: "game \<Rightarrow> int \<Rightarrow> string list \<Rightarrow> int \<Rightarrow> bool" where
  "validMove g userId args n =
     (status g = Active \<and> subCommandOf args = Some ''move''
      \<and> playerId (playerOf (players g) (currentPlayer g)) = Some userId
      \<and> parseIntArg (argAt args 1) = Some n \<and> 1 \<le> n \<and> n \<le> 9
      \<and> cellAt (board g) (nat (n - 1)) = None)"

text \<open>The text of lines 387 to 392 for a result \<open>w\<close>: the board, then the draw or
  the winner.\<close>

definition finalText :: "game \<Rightarrow> result \<Rightarrow> message" where
  "finalText g w =
     (case w of
        Draw \<Rightarrow> ItsADraw (getTicTacToeBoardText (board g) (Some (players g)))
      | Winner m \<Rightarrow>
          PlayerWins (getTicTacToeBoardText (board g) (Some (players g)))
            (name (playerOf (players g) m)) m)"

text \<open>The two message texts that stand in the source behind a guard that never lets
  them through (lines 296 to 299 and lines 445 to 447).\<close>

definition deadText :: "message \<Rightarrow> bool" where
  "deadText m = (case m of GameAlreadyInProgress \<Rightarrow> True | GamePending _ \<Rightarrow> True | _ \<Rightarrow> False)"

text \<open>What holds of every game in a reachable table: nine cells; a pending game has an
  empty board, \<open>X\<close> to move and no identity in the \<open>O\<close> slot; while the game has not
  ended the marks are balanced according to whose turn it is and no line is complete; an
  ended game shows the last move, made by \<open>currentPlayer\<close>.\<close>

definition gameInv :: "game \<Rightarrow> bool" where
  "gameInv g =
     (length (board g) = 9
      \<and> (status g = Pending \<longrightarrow>
           board g = replicate 9 None \<and> currentPlayer g = MarkX
           \<and> playerId (playerO (players g)) = None)
      \<and> (status g \<noteq> Ended \<longrightarrow>
           count_list (board g) (Some MarkX)
             = count_list (board g) (Some MarkO) + (if currentPlayer g = MarkX then 0 else 1)
           \<and> firstLine (board g) lines = None)
      \<and> (status g = Ended \<longrightarrow>
           count_list (board g) (Some MarkX) + (if currentPlayer g = MarkX then 0 else 1)
             = count_list (board g) (Some MarkO) + 1
           \<and> (\<forall>l \<in> set lines. \<not> complete (board g) l (other (currentPlayer g)))))"

text \<open>The invariant on the whole table.\<close>

definition tableInv :: "games \<Rightarrow> bool" where
  "tableInv gs = (\<forall>c g. gs c = Some g \<longrightarrow> gameInv g)"

text \<open>A sequence of commands, each with what the transport answers, the chat, the
  sender and the arguments: the handler runs on them in order.\<close>

fun run :: "games \<Rightarrow> (io \<times> int \<times> int \<times> string \<times> string list) list \<Rightarrow> games" where
  "run gs [] = gs"
| "run gs ((io, chatId, userId, userName, args) # cmds) =
     run (games (handleTicTacToe io gs chatId userId userName args)) cmds"




subsection \<open>Example runs and boards\<close>

text \<open>A transport that answers every awaited send with the message 100 and lets every
  edit through.\<close>

definition ioOk :: io where
  "ioOk = \<lparr>sendResult = Some 100, editOk = True\<rparr>"

text \<open>A transport that rejects every awaited send and every edit.\<close>

definition ioFail :: io where
  "ioFail = \<lparr>sendResult = None, editOk = False\<rparr>"

text \<open>Chat 7 after alice (user 1) has sent the challenge \<^verbatim>\<open>@bob\<close>: the table and the
  game it holds.\<close>

definition pendingGames :: games where
  "pendingGames = games (handleTicTacToe ioOk Map.empty 7 1 ''alice'' [''@bob''])"

definition pendingGame :: game where
  "pendingGame = (newGame 1 ''alice'' ''bob'')\<lparr>messageId := Some 100\<rparr>"

text \<open>Chat 7 after bob (user 2) has accepted.\<close>

definition activeGames :: games where
  "activeGames = games (handleTicTacToe ioOk pendingGames 7 2 ''bob'' [''accept''])"

definition activeGame :: game where
  "activeGame =
     \<lparr>board = replicate 9 None, currentPlayer = MarkX,
      players = \<lparr>playerX = \<lparr>playerId = Some 1, name = ''alice''\<rparr>,
                 playerO = \<lparr>playerId = Some 2, name = ''bob''\<rparr>\<rparr>,
      status = Active, messageId = Some 100\<rparr>"

text \<open>Chat 7 after alice has then moved to cell 5: bob is to move.\<close>

definition playedGames :: games where
  "playedGames = games (handleTicTacToe ioOk activeGames 7 1 ''alice'' [''move'', ''5''])"

definition playedGame :: game where
  "playedGame =
     \<lparr>board = [None, None, None, None, Some MarkX, None, None, None, None],
      currentPlayer = MarkO,
      players = \<lparr>playerX = \<lparr>playerId = Some 1, name = ''alice''\<rparr>,
                 playerO = \<lparr>playerId = Some 2, name = ''bob''\<rparr>\<rparr>,
      status = Active, messageId = Some 100\<rparr>"

text \<open>The table of chat 7 after \<open>X\<close> has taken the cells 1 and 2 and \<open>O\<close> the cells
  5 and 6, and its game.\<close>

definition beforeWinGames :: games where
  "beforeWinGames =
     run activeGames
       [(ioOk, 7, 1, ''alice'', [''move'', ''1'']), (ioOk, 7, 2, ''bob'', [''move'', ''5'']),
        (ioOk, 7, 1, ''alice'', [''move'', ''2'']), (ioOk, 7, 2, ''bob'', [''move'', ''6''])]"

definition beforeWinGame :: game where
  "beforeWinGame =
     \<lparr>board = [Some MarkX, Some MarkX, None, None, Some MarkO, Some MarkO, None, None, None],
      currentPlayer = MarkX,
      players = \<lparr>playerX = \<lparr>playerId = Some 1, name = ''alice''\<rparr>,
                 playerO = \<lparr>playerId = Some 2, name = ''bob''\<rparr>\<rparr>,
      status = Active, messageId = Some 100\<rparr>"

text \<open>Boards used as examples: one with a line of each mark, a full board on which
  \<open>X\<close> has the diagonal 3, 5, 7, a board whose first complete line is the second row,
  held by \<open>O\<close>, with \<open>X\<close> on the third row, a board with two marks, and a full board with no line.\<close>

definition twoLinesBoard :: board where
  "twoLinesBoard =
     [Some MarkO, Some MarkO, Some MarkO, Some MarkX, Some MarkX, Some MarkX, None, None, None]"

definition fullWinBoard :: board where
  "fullWinBoard =
     [Some MarkX, Some MarkO, Some MarkX, Some MarkO, Some MarkX, Some MarkO,
      Some MarkX, Some MarkX, Some MarkO]"

definition secondLineBoard :: board where
  "secondLineBoard =
     [None, None, None, Some MarkO, Some MarkO, Some MarkO, Some MarkX, Some MarkX, Some MarkX]"

definition openBoard :: board where
  "openBoard = [Some MarkX, Some MarkO, None, None, None, None, None, None, None]"

definition drawBoard :: board where
  "drawBoard =
     [Some MarkX, Some MarkO, Some MarkX, Some MarkX, Some MarkO, Some MarkO,
      Some MarkO, Some MarkX, Some MarkX]"

section \<open>Properties\<close>

subsection \<open>The evaluator\<close>

lemma firstLine_step:
  "firstLine b ((i, j, k) # ls) =
     (if \<exists>m. complete b (i, j, k) m then cellAt b i else firstLine b ls)"
  by (cases "cellAt b i") (auto simp: complete_def)

lemma firstLine_Some:
  "firstLine b ls = Some m \<Longrightarrow> \<exists>l \<in> set ls. complete b l m"
proof (induction ls)
  case Nil
  then show ?case by simp
next
  case (Cons l ls)
  obtain i j k where l: "l = (i, j, k)" by (cases l) auto
  show ?case
  proof (cases "\<exists>m'. complete b (i, j, k) m'")
    case True
    with Cons.prems l have "cellAt b i = Some m" by (simp only: firstLine_step if_True)
    with True have "complete b l m" by (auto simp: complete_def l)
    then show ?thesis by simp
  next
    case False
    with Cons.prems l have "firstLine b ls = Some m" by (simp only: firstLine_step if_False)
    with Cons.IH show ?thesis by auto
  qed
qed

lemma firstLine_None:
  "firstLine b ls = None \<Longrightarrow> l \<in> set ls \<Longrightarrow> \<not> complete b l m"
proof (induction ls)
  case Nil
  then show ?case by simp
next
  case (Cons l' ls)
  obtain i j k where l': "l' = (i, j, k)" by (cases l') auto
  have no: "\<not> (\<exists>m'. complete b (i, j, k) m')"
  proof
    assume "\<exists>m'. complete b (i, j, k) m'"
    then obtain m' where "complete b (i, j, k) m'" ..
    with Cons.prems(1) l' show False by (auto simp: firstLine_step complete_def)
  qed
  with Cons.prems(1) l' have "firstLine b ls = None" by (simp only: firstLine_step if_False)
  with Cons.IH Cons.prems(2) no l' show ?case by auto
qed

lemma firstLine_complete:
  "l \<in> set ls \<Longrightarrow> complete b l m \<Longrightarrow> \<exists>m'. firstLine b ls = Some m'"
  using firstLine_None by (cases "firstLine b ls") auto

subsection \<open>The handler, branch by branch, and the invariant\<close>

lemma gameInv_messageId [simp]: "gameInv (g\<lparr>messageId := x\<rparr>) = gameInv g"
  by (simp add: gameInv_def)

lemma count_list_update:
  "p < length b \<Longrightarrow> b ! p = None \<Longrightarrow>
   count_list (b[p := Some v]) (Some m) = count_list b (Some m) + (if v = m then 1 else 0)"
proof (induction b arbitrary: p)
  case Nil
  then show ?case by simp
next
  case (Cons c b)
  then show ?case by (cases p) auto
qed

lemma cellAt_setCell:
  "p < length b \<Longrightarrow> cellAt (setCell b p v) i = (if i = p then Some v else cellAt b i)"
  by (auto simp: cellAt_def setCell_def)

lemma length_setCell: "p < length b \<Longrightarrow> length (setCell b p v) = length b"
  by (simp add: setCell_def)

lemma complete_setCell:
  assumes p: "p < length b" and e: "cellAt b p = None"
    and n: "\<not> complete b l m'" and c: "complete (setCell b p v) l m'"
  shows "m' = v"
proof -
  obtain i j k where l: "l = (i, j, k)" by (cases l) auto
  show ?thesis
  proof (cases "p = i \<or> p = j \<or> p = k")
    case True
    with c l p show ?thesis by (auto simp: complete_def cellAt_setCell)
  next
    case False
    with c l p have "complete b l m'" by (auto simp: complete_def cellAt_setCell)
    with n show ?thesis by simp
  qed
qed

lemma newGame_inv: "gameInv (newGame u n opp)"
  by (simp add: gameInv_def newGame_def lines_def cellAt_def)

lemma games_reply [simp]: "games (reply gs m) = gs"
  by (simp add: reply_def)

lemma challenge_games:
  "games (challenge io gs chatId userId userName sc args) = gs
   \<or> (\<exists>opp mid. games (challenge io gs chatId userId userName sc args)
        = gs(chatId \<mapsto> (newGame userId userName opp)\<lparr>messageId := mid\<rparr>))"
  by (auto simp: challenge_def Let_def newGame_def split: option.splits)

lemma render_games:
  "\<exists>mid. games (render io gs c g m) = gs(c \<mapsto> g\<lparr>messageId := mid\<rparr>)"
proof (cases "truthyId (messageId g) \<and> editOk io")
  case True
  then have "games (render io gs c g m) = gs(c \<mapsto> g\<lparr>messageId := messageId g\<rparr>)"
    by (simp add: render_def Let_def)
  then show ?thesis ..
next
  case False
  show ?thesis
  proof (cases "sendResult io")
    case None
    with False have "games (render io gs c g m) = gs(c \<mapsto> g\<lparr>messageId := messageId g\<rparr>)"
      by (auto simp: render_def Let_def)
    then show ?thesis ..
  next
    case (Some x)
    with False have "games (render io gs c g m) = gs(c \<mapsto> g\<lparr>messageId := Some x\<rparr>)"
      by (auto simp: render_def Let_def)
    then show ?thesis ..
  qed
qed

lemma move_notYourTurn:
  "playerId (playerOf (players game) (currentPlayer game)) \<noteq> Some userId \<Longrightarrow>
   move io gs chatId userId game args = reply gs NotYourTurn"
  by (simp add: move_def)

lemma move_invalid:
  "playerId (playerOf (players game) (currentPlayer game)) = Some userId \<Longrightarrow>
   invalidCell (board game) (parseIntArg (argAt args 1)) \<Longrightarrow>
   move io gs chatId userId game args = reply gs InvalidMove"
  by (auto simp: move_def invalidCell_def split: option.splits)

lemma move_nonterminal:
  assumes "playerId (playerOf (players game) (currentPlayer game)) = Some userId"
    and "parseIntArg (argAt args 1) = Some n" and "1 \<le> n" and "n \<le> 9"
    and "cellAt (board game) (nat (n - 1)) = None"
    and "checkTicTacToeWin (setCell (board game) (nat (n - 1)) (currentPlayer game)) = None"
  shows "move io gs chatId userId game args =
     render io gs chatId
       (game\<lparr>board := setCell (board game) (nat (n - 1)) (currentPlayer game),
             currentPlayer := other (currentPlayer game)\<rparr>)
       (Turn (getTicTacToeBoardText (setCell (board game) (nat (n - 1)) (currentPlayer game))
                (Some (players game)))
          (name (playerOf (players game) (other (currentPlayer game))))
          (other (currentPlayer game)))"
  using assms by (simp add: move_def Let_def)

lemma move_terminal:
  assumes "playerId (playerOf (players game) (currentPlayer game)) = Some userId"
    and "parseIntArg (argAt args 1) = Some n" and "1 \<le> n" and "n \<le> 9"
    and "cellAt (board game) (nat (n - 1)) = None"
    and "checkTicTacToeWin (setCell (board game) (nat (n - 1)) (currentPlayer game)) = Some w"
  shows "move io gs chatId userId game args =
     (let game1 = game\<lparr>board := setCell (board game) (nat (n - 1)) (currentPlayer game)\<rparr>;
          r = render io gs chatId (game1\<lparr>status := Ended\<rparr>) (finalText game1 w)
      in if thrown r then r else r\<lparr>games := (games r)(chatId := None)\<rparr>)"
  using assms by (simp add: move_def Let_def finalText_def)

lemma move_cases:
  "move io gs chatId userId game args = reply gs NotYourTurn
   \<or> move io gs chatId userId game args = reply gs InvalidMove
   \<or> (\<exists>n. playerId (playerOf (players game) (currentPlayer game)) = Some userId
         \<and> parseIntArg (argAt args 1) = Some n \<and> 1 \<le> n \<and> n \<le> 9
         \<and> cellAt (board game) (nat (n - 1)) = None)"
  by (auto simp: move_def split: option.splits)

lemma move_inv:
  assumes inv: "gameInv game" and act: "status game = Active"
    and res: "games (move io gs chatId userId game args) chatId = Some g'"
    and old: "gs chatId = Some game"
  shows "gameInv g'"
proof -
  consider (rej) "games (move io gs chatId userId game args) = gs"
    | (ok) n where "playerId (playerOf (players game) (currentPlayer game)) = Some userId"
        "parseIntArg (argAt args 1) = Some n" "1 \<le> n" "n \<le> 9"
        "cellAt (board game) (nat (n - 1)) = None"
    using move_cases [of io gs chatId userId game args] by auto
  then show ?thesis
  proof cases
    case rej
    with res old inv show ?thesis by simp
  next
    case ok
    define p where "p = nat (n - 1)"
    define b' where "b' = setCell (board game) p (currentPlayer game)"
    from inv have len: "length (board game) = 9" by (simp add: gameInv_def)
    from ok(3,4) have p: "p < length (board game)" by (simp add: p_def len)
    from ok(5) p have empty: "board game ! p = None" by (simp add: cellAt_def p_def)
    have b'_upd: "b' = (board game)[p := Some (currentPlayer game)]"
      using p by (simp add: b'_def setCell_def)
    have cnt: "count_list b' (Some m)
                 = count_list (board game) (Some m) + (if currentPlayer game = m then 1 else 0)" for m
      unfolding b'_upd using count_list_update [OF p empty] by simp
    from inv act have old_cnt: "count_list (board game) (Some MarkX)
        = count_list (board game) (Some MarkO) + (if currentPlayer game = MarkX then 0 else 1)"
      and old_free: "firstLine (board game) lines = None"
      by (simp_all add: gameInv_def)
    have len': "length b' = 9" using len by (simp add: b'_upd)
    show ?thesis
    proof (cases "checkTicTacToeWin b'")
      case None
      then have free: "firstLine b' lines = None"
        by (simp add: checkTicTacToeWin_def split: option.splits if_splits)
      define g2 where "g2 = game\<lparr>board := b', currentPlayer := other (currentPlayer game)\<rparr>"
      have "gameInv g2"
        using len' free act cnt [of MarkX] cnt [of MarkO] old_cnt
        by (cases "currentPlayer game") (auto simp: gameInv_def g2_def other_def)
      moreover
      from move_nonterminal [OF ok(1,2,3,4,5), of io gs chatId] None
      obtain msg where "move io gs chatId userId game args = render io gs chatId g2 msg"
        by (simp add: b'_def p_def g2_def)
      with render_games [of io gs chatId g2 msg] res
      obtain mid where "g' = g2\<lparr>messageId := mid\<rparr>" by auto
      ultimately show ?thesis by simp
    next
      case (Some w)
      define g1 where "g1 = game\<lparr>board := b'\<rparr>"
      define r where "r = render io gs chatId (g1\<lparr>status := Ended\<rparr>) (finalText g1 w)"
      have only: "\<not> complete b' l (other (currentPlayer game))" if "l \<in> set lines" for l
      proof
        assume c: "complete b' l (other (currentPlayer game))"
        from firstLine_None [OF old_free that]
        have "\<not> complete (board game) l (other (currentPlayer game))" .
        from complete_setCell [OF p _ this] ok(5) c
        have "other (currentPlayer game) = currentPlayer game" by (simp add: b'_def p_def)
        then show False by (simp add: other_def split: if_splits)
      qed
      have "gameInv (g1\<lparr>status := Ended\<rparr>)"
        using len' only cnt [of MarkX] cnt [of MarkO] old_cnt
        by (cases "currentPlayer game") (auto simp: gameInv_def g1_def)
      moreover
      from Some have "checkTicTacToeWin
          (setCell (board game) (nat (n - 1)) (currentPlayer game)) = Some w"
        by (simp add: b'_def p_def)
      from move_terminal [OF ok(1,2,3,4,5) this, of io gs chatId]
      have m: "move io gs chatId userId game args =
          (if thrown r then r else r\<lparr>games := (games r)(chatId := None)\<rparr>)"
        by (simp add: Let_def b'_def p_def g1_def r_def)
      from render_games [of io gs chatId "g1\<lparr>status := Ended\<rparr>" "finalText g1 w"]
      obtain mid where "games r = gs(chatId \<mapsto> g1\<lparr>status := Ended, messageId := mid\<rparr>)"
        by (auto simp: r_def)
      with m res have "g' = g1\<lparr>status := Ended, messageId := mid\<rparr>"
        by (auto split: if_splits)
      ultimately show ?thesis by simp
    qed
  qed
qed

lemma accept_games:
  "games (accept io gs chatId userId userName) = gs
   \<or> (\<exists>game mid. gs chatId = Some game \<and> status game = Pending
         \<and> games (accept io gs chatId userId userName)
             = gs(chatId \<mapsto> game\<lparr>players := (players game)
                     \<lparr>playerO := (playerO (players game))\<lparr>playerId := Some userId\<rparr>\<rparr>,
                   status := Active, messageId := mid\<rparr>))"
proof (cases "gs chatId")
  case None
  then show ?thesis by (simp add: accept_def)
next
  case (Some game)
  show ?thesis
  proof (cases "sendResult io")
    case None
    with Some show ?thesis
      by (auto simp: accept_def Let_def intro: exI [of _ "messageId game"])
  next
    case (Some x)
    with \<open>gs chatId = Some game\<close> show ?thesis
      by (auto simp: accept_def Let_def)
  qed
qed

lemma accept_inv:
  assumes "gameInv game" "status game = Pending"
  shows "gameInv (game\<lparr>players := (players game)
                     \<lparr>playerO := (playerO (players game))\<lparr>playerId := Some userId\<rparr>\<rparr>,
                   status := Active, messageId := mid\<rparr>)"
  using assms by (simp add: gameInv_def lines_def cellAt_def)

lemma decline_games:
  "games (decline io gs chatId userId userName) = gs
   \<or> games (decline io gs chatId userId userName) = gs(chatId := None)"
  by (auto simp: decline_def split: option.splits)

lemma quit_games:
  "games (quit io gs chatId userId userName game) = gs
   \<or> games (quit io gs chatId userId userName game) = gs(chatId := None)"
  by (auto simp: quit_def split: option.splits)

lemma showStatus_games:
  "games (showStatus io gs chatId game) = gs
   \<or> (\<exists>mid. games (showStatus io gs chatId game) = gs(chatId \<mapsto> game\<lparr>messageId := mid\<rparr>))"
  using render_games [of io gs chatId game]
  by (auto simp: showStatus_def Let_def split: option.splits)

lemma handle_cases:
  "(\<exists>sc. handleTicTacToe io gs chatId userId userName args
            = challenge io gs chatId userId userName sc args)
   \<or> handleTicTacToe io gs chatId userId userName args = accept io gs chatId userId userName
   \<or> handleTicTacToe io gs chatId userId userName args = decline io gs chatId userId userName
   \<or> handleTicTacToe io gs chatId userId userName args = reply gs NoActiveGame
   \<or> (\<exists>game. gs chatId = Some game \<and> status game = Active
         \<and> (handleTicTacToe io gs chatId userId userName args
               = move io gs chatId userId game args
            \<or> handleTicTacToe io gs chatId userId userName args
               = quit io gs chatId userId userName game
            \<or> handleTicTacToe io gs chatId userId userName args
               = showStatus io gs chatId game))"
proof (cases "gs chatId")
  case None
  then show ?thesis by (simp add: handleTicTacToe_def Let_def) blast
next
  case (Some game)
  then show ?thesis by (simp add: handleTicTacToe_def Let_def) blast
qed

lemma move_games:
  "games (move io gs chatId userId game args) = gs
   \<or> games (move io gs chatId userId game args) = gs(chatId := None)
   \<or> (\<exists>g. games (move io gs chatId userId game args) = gs(chatId \<mapsto> g))"
proof -
  have r: "\<exists>g'. games (render io gs chatId g m) = gs(chatId \<mapsto> g')" for g m
    using render_games [of io gs chatId g m] by blast
  consider (rej) "games (move io gs chatId userId game args) = gs"
    | (ok) n where "playerId (playerOf (players game) (currentPlayer game)) = Some userId"
        "parseIntArg (argAt args 1) = Some n" "1 \<le> n" "n \<le> 9"
        "cellAt (board game) (nat (n - 1)) = None"
    using move_cases [of io gs chatId userId game args] by auto
  then show ?thesis
  proof cases
    case rej
    then show ?thesis by simp
  next
    case ok
    show ?thesis
    proof (cases "checkTicTacToeWin (setCell (board game) (nat (n - 1)) (currentPlayer game))")
      case None
      from move_nonterminal [OF ok None, of io gs chatId] r show ?thesis by simp
    next
      case (Some w)
      define r0 where "r0 = render io gs chatId
          (game\<lparr>board := setCell (board game) (nat (n - 1)) (currentPlayer game),
                status := Ended\<rparr>)
          (finalText (game\<lparr>board := setCell (board game) (nat (n - 1))
             (currentPlayer game)\<rparr>) w)"
      from r obtain g0 where g0: "games r0 = gs(chatId \<mapsto> g0)"
        unfolding r0_def by blast
      from move_terminal [OF ok Some, of io gs chatId]
      have "move io gs chatId userId game args =
          (if thrown r0 then r0 else r0\<lparr>games := (games r0)(chatId := None)\<rparr>)"
        by (simp add: Let_def r0_def)
      with g0 show ?thesis by (cases "thrown r0") auto
    qed
  qed
qed

lemma handle_frame:
  assumes c: "c \<noteq> chatId"
  shows "games (handleTicTacToe io gs chatId userId userName args) c = gs c"
proof -
  have 1: "games (challenge io gs chatId userId userName sc args) c = gs c" for sc
    using challenge_games [of io gs chatId userId userName sc args] c by auto
  have 2: "games (accept io gs chatId userId userName) c = gs c"
    using accept_games [of io gs chatId userId userName] c by auto
  have 3: "games (decline io gs chatId userId userName) c = gs c"
    using decline_games [of io gs chatId userId userName] c by auto
  have 4: "games (move io gs chatId userId game args) c = gs c" for game
    using move_games [of io gs chatId userId game args] c by auto
  have 5: "games (quit io gs chatId userId userName game) c = gs c" for game
    using quit_games [of io gs chatId userId userName game] c by auto
  have 6: "games (showStatus io gs chatId game) c = gs c" for game
    using showStatus_games [of io gs chatId game] c by auto
  from handle_cases [of io gs chatId userId userName args] show ?thesis
    by (elim disjE exE conjE) (simp_all add: 1 2 3 4 5 6)
qed

lemma handle_inv_here:
  assumes inv: "tableInv gs"
    and res: "games (handleTicTacToe io gs chatId userId userName args) chatId = Some g'"
  shows "gameInv g'"
proof -
  have old: "gameInv g" if "gs chatId = Some g" for g
    using inv that by (auto simp: tableInv_def)
  have ch: "gameInv g'"
    if "games (challenge io gs chatId userId userName sc args) chatId = Some g'" for sc
    using challenge_games [of io gs chatId userId userName sc args] that old newGame_inv
    by auto
  have ac: "gameInv g'" if "games (accept io gs chatId userId userName) chatId = Some g'"
    using accept_games [of io gs chatId userId userName] that old accept_inv
    by auto
  have de: "gameInv g'" if "games (decline io gs chatId userId userName) chatId = Some g'"
    using decline_games [of io gs chatId userId userName] that old by auto
  have qu: "gameInv g'"
    if "games (quit io gs chatId userId userName game) chatId = Some g'" for game
    using quit_games [of io gs chatId userId userName game] that old by auto
  have st: "gameInv g'"
    if "games (showStatus io gs chatId game) chatId = Some g'" "gs chatId = Some game" for game
    using showStatus_games [of io gs chatId game] that old by auto
  have mv: "gameInv g'"
    if "games (move io gs chatId userId game args) chatId = Some g'" "gs chatId = Some game"
       "status game = Active" for game
    using move_inv [OF old [OF that(2)] that(3) that(1) that(2)] .
  from handle_cases [of io gs chatId userId userName args] show ?thesis
  proof (elim disjE exE conjE)
    fix sc
    assume "handleTicTacToe io gs chatId userId userName args
              = challenge io gs chatId userId userName sc args"
    with res ch show ?thesis by simp
  next
    assume "handleTicTacToe io gs chatId userId userName args
              = accept io gs chatId userId userName"
    with res ac show ?thesis by simp
  next
    assume "handleTicTacToe io gs chatId userId userName args
              = decline io gs chatId userId userName"
    with res de show ?thesis by simp
  next
    assume "handleTicTacToe io gs chatId userId userName args = reply gs NoActiveGame"
    with res old show ?thesis by simp
  next
    fix game
    assume "gs chatId = Some game" "status game = Active"
      "handleTicTacToe io gs chatId userId userName args = move io gs chatId userId game args"
    with res mv show ?thesis by simp
  next
    fix game
    assume "gs chatId = Some game" "status game = Active"
      "handleTicTacToe io gs chatId userId userName args
         = quit io gs chatId userId userName game"
    with res qu show ?thesis by simp
  next
    fix game
    assume "gs chatId = Some game" "status game = Active"
      "handleTicTacToe io gs chatId userId userName args = showStatus io gs chatId game"
    with res st show ?thesis by simp
  qed
qed

lemma handle_inv:
  assumes "tableInv gs"
  shows "tableInv (games (handleTicTacToe io gs chatId userId userName args))"
  unfolding tableInv_def
proof (intro allI impI)
  fix c g
  assume g: "games (handleTicTacToe io gs chatId userId userName args) c = Some g"
  show "gameInv g"
  proof (cases "c = chatId")
    case True
    with g handle_inv_here [OF assms] show ?thesis by simp
  next
    case False
    with g handle_frame [OF False, of io gs userId userName args] assms show ?thesis
      by (simp add: tableInv_def)
  qed
qed

lemma reachable_inv: "reachable gs \<Longrightarrow> tableInv gs"
proof (induction rule: reachable.induct)
  case init
  show ?case by (simp add: tableInv_def)
next
  case (step gs io chatId userId userName args)
  then show ?case by (simp add: handle_inv)
qed

subsection \<open>The example runs\<close>

lemma reachable_pendingGames: "reachable pendingGames"
  unfolding pendingGames_def by (rule reachable.step [OF reachable.init])

lemma reachable_activeGames: "reachable activeGames"
  unfolding activeGames_def by (rule reachable.step [OF reachable_pendingGames])

lemma reachable_playedGames: "reachable playedGames"
  unfolding playedGames_def by (rule reachable.step [OF reachable_activeGames])

lemma pendingGames_7: "pendingGames 7 = Some pendingGame"
  by code_simp

lemma activeGames_7: "activeGames 7 = Some activeGame"
  by code_simp

subsection \<open>Whose turn it is (C2) and the marks on the board (C9)\<close>

lemma occupied_count:
  "occupied b = count_list b (Some MarkX) + count_list b (Some MarkO)"
proof (induction b)
  case Nil
  show ?case by (simp add: occupied_def)
next
  case (Cons c b)
  show ?case
  proof (cases c)
    case None
    with Cons show ?thesis by (simp add: occupied_def)
  next
    case (Some m)
    with Cons show ?thesis by (cases m) (simp_all add: occupied_def)
  qed
qed

lemma handle_move:
  assumes "gs chatId = Some g" "status g = Active" "subCommandOf args = Some ''move''"
  shows "handleTicTacToe io gs chatId userId userName args = move io gs chatId userId g args"
  using assms by (simp add: handleTicTacToe_def startsWithAt_def)

lemma handle_new_game:
  assumes old: "gs chatId = None \<or> (\<exists>g. gs chatId = Some g \<and> status g = Ended)"
    and res: "games (handleTicTacToe io gs chatId userId userName args) chatId = Some g'"
    and live: "status g' \<noteq> Ended"
  shows "currentPlayer g' = MarkX \<and> status g' = Pending \<and> board g' = replicate 9 None"
proof -
  from handle_cases [of io gs chatId userId userName args] show ?thesis
  proof (elim disjE exE conjE)
    fix sc
    assume "handleTicTacToe io gs chatId userId userName args
              = challenge io gs chatId userId userName sc args"
    with res challenge_games [of io gs chatId userId userName sc args] old live
    show ?thesis by (auto simp: newGame_def)
  next
    assume "handleTicTacToe io gs chatId userId userName args
              = accept io gs chatId userId userName"
    with res accept_games [of io gs chatId userId userName] old live
    show ?thesis by auto
  next
    assume "handleTicTacToe io gs chatId userId userName args
              = decline io gs chatId userId userName"
    with res decline_games [of io gs chatId userId userName] old live
    show ?thesis by auto
  next
    assume "handleTicTacToe io gs chatId userId userName args = reply gs NoActiveGame"
    with res old live show ?thesis by auto
  qed (use old in auto)
qed

lemma render_here:
  "\<exists>mid. games (render io gs c g m) c = Some (g\<lparr>messageId := mid\<rparr>)"
  using render_games [of io gs c g m] by auto

lemma handle_move_flips:
  assumes g: "gs chatId = Some g" and v: "validMove g userId args n"
    and c: "checkTicTacToeWin (setCell (board g) (nat (n - 1)) (currentPlayer g)) = None"
  shows "\<exists>g'. games (handleTicTacToe io gs chatId userId userName args) chatId = Some g'
           \<and> currentPlayer g' = other (currentPlayer g) \<and> status g' = Active
           \<and> board g' = setCell (board g) (nat (n - 1)) (currentPlayer g)"
proof -
  from v have a: "status g = Active" "subCommandOf args = Some ''move''"
    and t: "playerId (playerOf (players g) (currentPlayer g)) = Some userId"
      "parseIntArg (argAt args 1) = Some n" "1 \<le> n" "n \<le> 9"
      "cellAt (board g) (nat (n - 1)) = None"
    by (simp_all add: validMove_def)
  from handle_move [where gs = gs and chatId = chatId, OF g a] move_nonterminal [OF t c]
  obtain g2 msg where h: "handleTicTacToe io gs chatId userId userName args
        = render io gs chatId g2 msg"
    and g2: "g2 = g\<lparr>board := setCell (board g) (nat (n - 1)) (currentPlayer g),
                       currentPlayer := other (currentPlayer g)\<rparr>"
    by simp
  from render_here [of io gs chatId g2 msg] obtain mid
    where "games (render io gs chatId g2 msg) chatId = Some (g2\<lparr>messageId := mid\<rparr>)" ..
  with h g2 a show ?thesis by simp
qed

lemma reachable_turn:
  assumes "reachable gs" "gs chatId = Some g" "status g \<noteq> Ended"
  shows "currentPlayer g = (if even (occupied (board g)) then MarkX else MarkO)"
proof -
  from reachable_inv [OF assms(1)] assms(2) have "gameInv g" by (auto simp: tableInv_def)
  with assms(3) have "count_list (board g) (Some MarkX)
      = count_list (board g) (Some MarkO) + (if currentPlayer g = MarkX then 0 else 1)"
    by (simp add: gameInv_def)
  then show ?thesis
    by (cases "currentPlayer g") (simp_all add: occupied_count)
qed

text \<open>
  Claim C2. The mark to move alternates strictly, starting with \<open>X\<close>: a game that a
  command creates (none, or an ended one, was in the table before) is pending with
  \<open>X\<close> to move on an empty board; a move that passes the guards and does not end the
  game leaves the game active with the mover's mark in the chosen cell and the other
  mark to move; and in every reachable table a game that has not ended has \<open>X\<close> to
  move exactly when an even number of moves has been made.
\<close>

theorem currentPlayer_alternates:
  "((gs chatId = None \<or> (\<exists>g0. gs chatId = Some g0 \<and> status g0 = Ended))
      \<and> games (handleTicTacToe io gs chatId userId userName args) chatId = Some g'
      \<and> status g' \<noteq> Ended
    \<longrightarrow> currentPlayer g' = MarkX \<and> status g' = Pending \<and> board g' = replicate 9 None)
   \<and> (gs chatId = Some g \<and> validMove g userId args n
        \<and> checkTicTacToeWin (setCell (board g) (nat (n - 1)) (currentPlayer g)) = None
    \<longrightarrow> (\<exists>g''. games (handleTicTacToe io gs chatId userId userName args) chatId = Some g''
           \<and> currentPlayer g'' = other (currentPlayer g) \<and> status g'' = Active
           \<and> board g'' = setCell (board g) (nat (n - 1)) (currentPlayer g)))
   \<and> (reachable gs \<and> gs chatId = Some g \<and> status g \<noteq> Ended
    \<longrightarrow> currentPlayer g = (if even (occupied (board g)) then MarkX else MarkO))"
  using handle_new_game [of gs chatId io userId userName args g']
    handle_move_flips [of gs chatId g userId args n io userName]
    reachable_turn [of gs chatId g]
  by blast

text \<open>
  Claim C9. In every reachable table, every cell of every game is empty or holds
  \<open>X\<close> or \<open>O\<close>, the board has nine cells, the number of \<open>X\<close> minus the number
  of \<open>O\<close> is 0 or 1, and the board of a pending game is all empty.
\<close>

theorem board_marks_balanced:
  assumes "reachable gs" and "gs chatId = Some g"
  shows "(\<forall>cell \<in> set (board g). cell = None \<or> cell = Some MarkX \<or> cell = Some MarkO)
     \<and> length (board g) = 9
     \<and> int (count_list (board g) (Some MarkX)) - int (count_list (board g) (Some MarkO)) \<in> {0, 1}
     \<and> (status g = Pending \<longrightarrow> (\<forall>cell \<in> set (board g). cell = None))"
proof -
  from reachable_inv [OF assms(1)] assms(2) have inv: "gameInv g" by (auto simp: tableInv_def)
  have 1: "cell = None \<or> cell = Some MarkX \<or> cell = Some MarkO" for cell :: cell
  proof (cases cell)
    case None then show ?thesis by simp
  next
    case (Some m) then show ?thesis by (cases m) simp_all
  qed
  from inv have 2: "length (board g) = 9" by (simp add: gameInv_def)
  from inv have 3: "int (count_list (board g) (Some MarkX))
      - int (count_list (board g) (Some MarkO)) \<in> {0, 1}"
    by (cases "status g = Ended"; cases "currentPlayer g") (auto simp: gameInv_def)
  from inv have 4: "status g = Pending \<longrightarrow> (\<forall>cell \<in> set (board g). cell = None)"
    by (auto simp: gameInv_def)
  from 1 2 3 4 show ?thesis by blast
qed

theorem currentPlayer_alternates_witness:
  "Map.empty (7::int) = (None :: game option)
   \<and> games (handleTicTacToe ioOk Map.empty 7 1 ''alice'' [''@bob'']) 7 = Some pendingGame
   \<and> currentPlayer pendingGame = MarkX \<and> status pendingGame = Pending
   \<and> validMove activeGame 1 [''move'', ''5''] 5
   \<and> map_option currentPlayer
         (games (handleTicTacToe ioOk activeGames 7 1 ''alice'' [''move'', ''5'']) 7)
       = Some MarkO
   \<and> reachable activeGames \<and> currentPlayer activeGame = MarkX"
proof -
  have a: "games (handleTicTacToe ioOk Map.empty 7 1 ''alice'' [''@bob'']) 7 = Some pendingGame"
    using pendingGames_7 by (simp add: pendingGames_def)
  have b: "status pendingGame \<noteq> Ended" by code_simp
  have v: "validMove activeGame 1 [''move'', ''5''] 5" by code_simp
  have c: "checkTicTacToeWin (setCell (board activeGame) (nat (5 - 1)) (currentPlayer activeGame))
             = None" by code_simp
  have d: "status activeGame \<noteq> Ended" by code_simp
  have e: "other (currentPlayer activeGame) = MarkO" by code_simp
  have f: "even (occupied (board activeGame))" by code_simp
  note t = currentPlayer_alternates [of Map.empty 7 ioOk 1 "''alice''" "[''@bob'']" pendingGame]
  note u = currentPlayer_alternates [of activeGames 7 ioOk 1 "''alice''" "[''move'', ''5'']"
             _ activeGame 5]
  from t a b have 1: "currentPlayer pendingGame = MarkX \<and> status pendingGame = Pending"
    by blast
  from u activeGames_7 v c e
  have 2: "map_option currentPlayer
         (games (handleTicTacToe ioOk activeGames 7 1 ''alice'' [''move'', ''5'']) 7)
       = Some MarkO" by auto
  from u reachable_activeGames activeGames_7 d f have 3: "currentPlayer activeGame = MarkX"
    by auto
  from a 1 v 2 3 reachable_activeGames show ?thesis by simp
qed

theorem board_marks_balanced_witness:
  "reachable playedGames
   \<and> map_option board (playedGames 7)
       = Some [None, None, None, None, Some MarkX, None, None, None, None]
   \<and> int (count_list [None, None, None, None, Some MarkX, None, None, None, None] (Some MarkX))
       - int (count_list [None, None, None, None, Some MarkX, None, None, None, None] (Some MarkO))
       \<in> {0, 1}
   \<and> reachable pendingGames \<and> pendingGames 7 = Some pendingGame
   \<and> status pendingGame = Pending \<and> set (board pendingGame) \<subseteq> {None}"
proof -
  have p: "status pendingGame = Pending" by code_simp
  have b: "map_option board (playedGames 7)
       = Some [None, None, None, None, Some MarkX, None, None, None, None]" by code_simp
  then obtain g where g: "playedGames 7 = Some g"
    and bg: "board g = [None, None, None, None, Some MarkX, None, None, None, None]" by auto
  from board_marks_balanced [OF reachable_playedGames g] bg
  have 1: "int (count_list [None, None, None, None, Some MarkX, None, None, None, None] (Some MarkX))
       - int (count_list [None, None, None, None, Some MarkX, None, None, None, None] (Some MarkO))
       \<in> {0, 1}" by simp
  from board_marks_balanced [OF reachable_pendingGames pendingGames_7] p
  have 2: "set (board pendingGame) \<subseteq> {None}" by blast
  from reachable_playedGames b 1 reachable_pendingGames pendingGames_7 p 2
  show ?thesis by blast
qed

subsection \<open>The result of the evaluator (C1)\<close>

lemma reachable_run: "reachable gs \<Longrightarrow> reachable (run gs cmds)"
proof (induction cmds arbitrary: gs)
  case Nil
  then show ?case by simp
next
  case (Cons c cmds)
  obtain io chatId userId userName args where c: "c = (io, chatId, userId, userName, args)"
    by (cases c) auto
  from Cons.prems have "reachable (games (handleTicTacToe io gs chatId userId userName args))"
    by (rule reachable.step)
  from Cons.IH [OF this] c show ?case by simp
qed

lemma reachable_beforeWinGames: "reachable beforeWinGames"
  unfolding beforeWinGames_def by (rule reachable_run [OF reachable_activeGames])

lemma beforeWinGames_7: "beforeWinGames 7 = Some beforeWinGame"
  by code_simp

lemma other_cases: "m' = m \<or> m' = other m"
  by (cases m; cases m') (auto simp: other_def)

lemma win_unique:
  assumes "l \<in> set lines" "complete b l m" "\<forall>l' \<in> set lines. \<not> complete b l' (other m)"
  shows "checkTicTacToeWin b = Some (Winner m)"
proof -
  from firstLine_complete [OF assms(1,2)] obtain m' where f: "firstLine b lines = Some m'" ..
  from firstLine_Some [OF f] obtain l' where "l' \<in> set lines" "complete b l' m'" ..
  with assms(3) other_cases [of m' m] have "m' = m" by auto
  with f show ?thesis by (simp add: checkTicTacToeWin_def)
qed

lemma win_priority:
  assumes "l \<in> set lines" "complete b l m"
  shows "\<exists>m'. checkTicTacToeWin b = Some (Winner m') \<and> (\<exists>l' \<in> set lines. complete b l' m')"
proof -
  from firstLine_complete [OF assms] obtain m' where f: "firstLine b lines = Some m'" ..
  from firstLine_Some [OF f] f show ?thesis by (auto simp: checkTicTacToeWin_def)
qed

lemma no_line_firstLine:
  assumes "\<forall>l \<in> set lines. \<forall>m. \<not> complete b l m"
  shows "firstLine b lines = None"
proof (cases "firstLine b lines")
  case None
  then show ?thesis .
next
  case (Some m)
  from firstLine_Some [OF Some] assms show ?thesis by auto
qed

lemma no_result:
  assumes "\<forall>l \<in> set lines. \<forall>m. \<not> complete b l m" "None \<in> set b"
  shows "checkTicTacToeWin b = None"
  using no_line_firstLine [OF assms(1)] assms(2)
  by (auto simp: checkTicTacToeWin_def list_all_iff)

lemma draw_result:
  assumes "\<forall>l \<in> set lines. \<forall>m. \<not> complete b l m" "None \<notin> set b"
  shows "checkTicTacToeWin b = Some Draw"
  using no_line_firstLine [OF assms(1)] assms(2)
  by (auto simp: checkTicTacToeWin_def list_all_iff)

lemma win_in_play:
  assumes r: "reachable gs" and g: "gs chatId = Some g" and v: "validMove g userId args n"
    and l: "l \<in> set lines"
    and c: "complete (setCell (board g) (nat (n - 1)) (currentPlayer g)) l m"
  shows "m = currentPlayer g
     \<and> checkTicTacToeWin (setCell (board g) (nat (n - 1)) (currentPlayer g)) = Some (Winner m)"
proof -
  from reachable_inv [OF r] g have inv: "gameInv g" by (auto simp: tableInv_def)
  from v have a: "status g = Active" and n: "1 \<le> n" "n \<le> 9"
    and e: "cellAt (board g) (nat (n - 1)) = None"
    by (simp_all add: validMove_def)
  from inv a have len: "length (board g) = 9" and free: "firstLine (board g) lines = None"
    by (simp_all add: gameInv_def)
  from n len have p: "nat (n - 1) < length (board g)" by simp
  have only: "m' = currentPlayer g"
    if "l' \<in> set lines" "complete (setCell (board g) (nat (n - 1)) (currentPlayer g)) l' m'"
    for l' m'
    using complete_setCell [OF p e firstLine_None [OF free that(1)] that(2)] .
  from only [OF l c] have m: "m = currentPlayer g" .
  have "\<forall>l' \<in> set lines.
      \<not> complete (setCell (board g) (nat (n - 1)) (currentPlayer g)) l' (other m)"
  proof
    fix l'
    assume l': "l' \<in> set lines"
    show "\<not> complete (setCell (board g) (nat (n - 1)) (currentPlayer g)) l' (other m)"
    proof
      assume "complete (setCell (board g) (nat (n - 1)) (currentPlayer g)) l' (other m)"
      from only [OF l' this] m show False by (simp add: other_def split: if_splits)
    qed
  qed
  from win_unique [OF l c this] m show ?thesis by simp
qed

lemma firstLine_skip:
  assumes "\<forall>l' \<in> set pre. \<forall>m'. \<not> complete b l' m'"
  shows "firstLine b (pre @ ls) = firstLine b ls"
  using assms
proof (induction pre)
  case Nil
  show ?case by simp
next
  case (Cons l' pre)
  obtain i j k where l': "l' = (i, j, k)" by (cases l') auto
  from Cons.prems l' have "\<not> (\<exists>m. complete b (i, j, k) m)" by simp
  with Cons l' show ?case by (simp add: firstLine_step del: firstLine.simps)
qed

lemma win_first:
  assumes "lines = pre @ l # post" "complete b l m"
    "\<forall>l' \<in> set pre. \<forall>m'. \<not> complete b l' m'"
  shows "checkTicTacToeWin b = Some (Winner m)"
proof -
  obtain i j k where l: "l = (i, j, k)" by (cases l) auto
  from assms(2) l have "firstLine b (l # post) = Some m"
    by (auto simp: firstLine_step complete_def simp del: firstLine.simps)
  with firstLine_skip [OF assms(3), of "l # post"] assms(1)
  have "firstLine b lines = Some m" by simp
  then show ?thesis by (simp add: checkTicTacToeWin_def)
qed

text \<open>
  Claim C1, amended. The evaluator is a function of the board alone (it is a HOL function
  of \<open>b\<close>, as the source reads nothing else and writes nothing). When a line is
  complete the result is a winner, never a draw and never "no result", also on a full
  board; the winner is the mark of the first complete line in the order of \<open>lines\<close>
  (no line before it in the list is complete), and so it is the mark \<open>m\<close> of a given
  complete line whenever the other mark has no complete line. That is the case on every
  board the handler evaluates: after a move that passes the guards in a reachable table,
  only the mover's mark can have a complete line. With no complete line the result is a
  draw on a full board and no result when a cell is empty.
\<close>

theorem checkTicTacToeWin_result:
  "(l \<in> set lines \<and> complete b l m \<and> (\<forall>l' \<in> set lines. \<not> complete b l' (other m))
      \<longrightarrow> checkTicTacToeWin b = Some (Winner m))
   \<and> (l \<in> set lines \<and> complete b l m
      \<longrightarrow> (\<exists>m'. checkTicTacToeWin b = Some (Winner m') \<and> (\<exists>l' \<in> set lines. complete b l' m')))
   \<and> (reachable gs \<and> gs chatId = Some g \<and> validMove g userId args n \<and> l \<in> set lines
        \<and> complete (setCell (board g) (nat (n - 1)) (currentPlayer g)) l m
      \<longrightarrow> checkTicTacToeWin (setCell (board g) (nat (n - 1)) (currentPlayer g))
            = Some (Winner m))
   \<and> ((\<forall>l \<in> set lines. \<forall>m. \<not> complete b l m) \<and> None \<in> set b
      \<longrightarrow> checkTicTacToeWin b = None)
   \<and> ((\<forall>l \<in> set lines. \<forall>m. \<not> complete b l m) \<and> None \<notin> set b
      \<longrightarrow> checkTicTacToeWin b = Some Draw)
   \<and> (lines = pre @ l # post \<and> complete b l m
        \<and> (\<forall>l' \<in> set pre. \<forall>m'. \<not> complete b l' m')
      \<longrightarrow> checkTicTacToeWin b = Some (Winner m))"
  using win_unique [of l b m] win_priority [of l b m] no_result [of b] draw_result [of b]
    win_in_play [of gs chatId g userId args n l m] win_first [of pre l post b m]
  by blast

theorem checkTicTacToeWin_result_counterexample:
  "(3, 4, 5) \<in> set lines \<and> complete twoLinesBoard (3, 4, 5) MarkX
   \<and> checkTicTacToeWin twoLinesBoard = Some (Winner MarkO)"
  by (simp add: lines_def complete_def cellAt_def checkTicTacToeWin_def twoLinesBoard_def)

theorem checkTicTacToeWin_result_witness:
  "(2, 4, 6) \<in> set lines \<and> complete fullWinBoard (2, 4, 6) MarkX
   \<and> None \<notin> set fullWinBoard
   \<and> checkTicTacToeWin fullWinBoard = Some (Winner MarkX)
   \<and> reachable beforeWinGames \<and> beforeWinGames 7 = Some beforeWinGame
   \<and> validMove beforeWinGame 1 [''move'', ''3''] 3
   \<and> (0, 1, 2) \<in> set lines
   \<and> checkTicTacToeWin (setCell (board beforeWinGame) 2 (currentPlayer beforeWinGame))
       = Some (Winner MarkX)
   \<and> None \<in> set openBoard \<and> checkTicTacToeWin openBoard = None
   \<and> None \<notin> set drawBoard \<and> checkTicTacToeWin drawBoard = Some Draw
   \<and> lines = [(0, 1, 2)] @ (3, 4, 5) # [(6, 7, 8), (0, 3, 6), (1, 4, 7), (2, 5, 8), (0, 4, 8),
                                         (2, 4, 6)]
   \<and> complete secondLineBoard (3, 4, 5) MarkO \<and> complete secondLineBoard (6, 7, 8) MarkX
   \<and> checkTicTacToeWin secondLineBoard = Some (Winner MarkO)"
proof -
  have l: "(2, 4, 6) \<in> set lines" "(0, 1, 2) \<in> set lines" by (simp_all add: lines_def)
  have sp: "lines = [(0, 1, 2)] @ (3, 4, 5) # [(6, 7, 8), (0, 3, 6), (1, 4, 7), (2, 5, 8),
      (0, 4, 8), (2, 4, 6)]" by (simp add: lines_def)
  have sc: "complete secondLineBoard (3, 4, 5) MarkO" "complete secondLineBoard (6, 7, 8) MarkX"
    by (simp_all add: complete_def cellAt_def secondLineBoard_def)
  have sn: "\<forall>l' \<in> set [(0, 1, 2)]. \<forall>m'. \<not> complete secondLineBoard l' m'"
    by (simp add: complete_def cellAt_def secondLineBoard_def)
  from checkTicTacToeWin_result [where b = secondLineBoard and l = "(3, 4, 5)" and m = MarkO
      and pre = "[(0, 1, 2)]"
      and post = "[(6, 7, 8), (0, 3, 6), (1, 4, 7), (2, 5, 8), (0, 4, 8), (2, 4, 6)]"] sp sc sn
  have 5: "checkTicTacToeWin secondLineBoard = Some (Winner MarkO)" by blast
  have c: "complete fullWinBoard (2, 4, 6) MarkX"
    by (simp add: complete_def cellAt_def fullWinBoard_def)
  have n: "\<forall>l' \<in> set lines. \<not> complete fullWinBoard l' (other MarkX)"
    by (simp add: lines_def complete_def cellAt_def other_def fullWinBoard_def)
  have f: "None \<notin> set fullWinBoard" by (simp add: fullWinBoard_def)
  have v: "validMove beforeWinGame 1 [''move'', ''3''] 3" by code_simp
  have c': "complete (setCell (board beforeWinGame) (nat (3 - 1)) (currentPlayer beforeWinGame))
              (0, 1, 2) MarkX"
    by (simp add: complete_def cellAt_def setCell_def beforeWinGame_def)
  have o: "\<forall>l \<in> set lines. \<forall>m. \<not> complete openBoard l m"
    by (simp add: lines_def complete_def cellAt_def openBoard_def)
  have oe: "None \<in> set openBoard" by (simp add: openBoard_def)
  have d: "\<forall>l \<in> set lines. \<forall>m. \<not> complete drawBoard l m"
    by (simp add: lines_def complete_def cellAt_def drawBoard_def)
  have de: "None \<notin> set drawBoard" by (simp add: drawBoard_def)
  from checkTicTacToeWin_result [of "(2, 4, 6)" fullWinBoard MarkX] l c n
  have 1: "checkTicTacToeWin fullWinBoard = Some (Winner MarkX)" by blast
  from checkTicTacToeWin_result [of "(0, 1, 2)" _ MarkX beforeWinGames 7 beforeWinGame 1
      "[''move'', ''3'']" 3] l reachable_beforeWinGames beforeWinGames_7 v c'
  have 2: "checkTicTacToeWin (setCell (board beforeWinGame) 2 (currentPlayer beforeWinGame))
       = Some (Winner MarkX)" by simp
  from checkTicTacToeWin_result [of _ openBoard] o oe
  have 3: "checkTicTacToeWin openBoard = None" by blast
  from checkTicTacToeWin_result [of _ drawBoard] d de
  have 4: "checkTicTacToeWin drawBoard = Some Draw" by blast
  from l c f 1 reachable_beforeWinGames beforeWinGames_7 v 2 oe 3 de 4 sp sc 5
  show ?thesis by simp
qed

subsection \<open>A move that ends the game (C3)\<close>

lemma cellAt_setCell_kept:
  assumes "cellAt b p = None" "cellAt b i = Some m"
  shows "cellAt (setCell b p v) i = Some m"
proof -
  from assms(2) have i: "i < length b" by (auto simp: cellAt_def split: if_splits)
  from assms have "i \<noteq> p" by auto
  with i assms(2) show ?thesis
    by (auto simp: cellAt_def setCell_def nth_append)
qed

lemma actions_render:
  "actions (render io gs c g m) =
     (case messageId g of None \<Rightarrow> [] | Some k \<Rightarrow> if k \<noteq> 0 then [EditMessageText k m] else [])
     @ (if truthyId (messageId g) \<and> editOk io then [] else [SendMessage m])"
  by (simp add: render_def Let_def split: option.splits)

lemma thrown_render:
  "thrown (render io gs c g m) = (\<not> (truthyId (messageId g) \<and> editOk io) \<and> sendResult io = None)"
  by (simp add: render_def Let_def split: option.splits)

lemma rendered:
  "\<not> thrown (render io gs c g m) \<Longrightarrow>
   (\<exists>k. EditMessageText k m \<in> set (actions (render io gs c g m)))
   \<or> SendMessage m \<in> set (actions (render io gs c g m))"
  by (auto simp: actions_render thrown_render truthyId_def split: option.splits)

lemma handle_no_game:
  assumes "gs chatId = None \<or> (\<exists>g. gs chatId = Some g \<and> status g = Ended)"
    and "subCommandOf args = Some ''move'' \<or> subCommandOf args = None"
  shows "handleTicTacToe io gs chatId userId userName args = reply gs NoActiveGame"
  using assms by (auto simp: handleTicTacToe_def startsWithAt_def)

lemma move_valid_terminal:
  assumes g: "gs chatId = Some g" and v: "validMove g userId args n"
    and w: "checkTicTacToeWin (setCell (board g) (nat (n - 1)) (currentPlayer g)) = Some w"
  shows "handleTicTacToe io gs chatId userId userName args =
     (let game1 = g\<lparr>board := setCell (board g) (nat (n - 1)) (currentPlayer g)\<rparr>;
          r = render io gs chatId (game1\<lparr>status := Ended\<rparr>) (finalText game1 w)
      in if thrown r then r else r\<lparr>games := (games r)(chatId := None)\<rparr>)"
proof -
  from v have a: "status g = Active" "subCommandOf args = Some ''move''"
    and t: "playerId (playerOf (players g) (currentPlayer g)) = Some userId"
      "parseIntArg (argAt args 1) = Some n" "1 \<le> n" "n \<le> 9"
      "cellAt (board g) (nat (n - 1)) = None"
    by (simp_all add: validMove_def)
  from handle_move [where gs = gs and chatId = chatId, OF g a] move_terminal [OF t w]
  show ?thesis by simp
qed

lemma thrown_render_games:
  "thrown (render io gs c g m) \<Longrightarrow> games (render io gs c g m) = gs(c \<mapsto> g)"
  by (auto simp: render_def Let_def split: option.splits if_splits)

text \<open>
  Claim C3, amended. When a move that passes the guards reaches a result (a win or a
  draw), the handler tries to edit the stored message to the final board when there is
  a stored message, and sends the final board as a new message when there is none or the
  edit fails; it throws exactly when that send is made and is rejected. When it does not
  throw, the final board has been rendered and the game is removed from the table. When
  it throws, the game stays in the table with the final board and the status ended. In
  both cases a later move or status command in that chat is answered with the
  no-active-game reply and leaves the table as it is, exactly as in a table that holds no
  game for the chat.
\<close>

theorem terminal_move_removes_game:
  assumes "gs chatId = Some g" and "validMove g userId args n"
    and "checkTicTacToeWin (setCell (board g) (nat (n - 1)) (currentPlayer g)) = Some w"
  shows "(thrown (handleTicTacToe io gs chatId userId userName args)
          \<longleftrightarrow> \<not> (truthyId (messageId g) \<and> editOk io) \<and> sendResult io = None)
     \<and> (\<not> thrown (handleTicTacToe io gs chatId userId userName args) \<longrightarrow>
          games (handleTicTacToe io gs chatId userId userName args) chatId = None
          \<and> ((\<exists>k. EditMessageText k
                  (finalText (g\<lparr>board := setCell (board g) (nat (n - 1)) (currentPlayer g)\<rparr>) w)
                \<in> set (actions (handleTicTacToe io gs chatId userId userName args)))
             \<or> SendMessage
                  (finalText (g\<lparr>board := setCell (board g) (nat (n - 1)) (currentPlayer g)\<rparr>) w)
                \<in> set (actions (handleTicTacToe io gs chatId userId userName args))))
     \<and> (subCommandOf args' = Some ''move'' \<or> subCommandOf args' = None \<longrightarrow>
          handleTicTacToe io' (games (handleTicTacToe io gs chatId userId userName args))
              chatId userId' userName' args'
            = reply (games (handleTicTacToe io gs chatId userId userName args)) NoActiveGame
          \<and> handleTicTacToe io' (gs(chatId := None)) chatId userId' userName' args'
            = reply (gs(chatId := None)) NoActiveGame)
     \<and> (thrown (handleTicTacToe io gs chatId userId userName args) \<longrightarrow>
          games (handleTicTacToe io gs chatId userId userName args)
            = gs(chatId \<mapsto> g\<lparr>board := setCell (board g) (nat (n - 1)) (currentPlayer g),
                                 status := Ended\<rparr>))
     \<and> actions (handleTicTacToe io gs chatId userId userName args)
         = (case messageId g of
              None \<Rightarrow> []
            | Some k \<Rightarrow>
                if k \<noteq> 0
                then [EditMessageText k
                        (finalText (g\<lparr>board := setCell (board g) (nat (n - 1))
                                                  (currentPlayer g)\<rparr>) w)]
                else [])
           @ (if truthyId (messageId g) \<and> editOk io then []
              else [SendMessage
                      (finalText (g\<lparr>board := setCell (board g) (nat (n - 1))
                                                (currentPlayer g)\<rparr>) w)])"
proof -
  define game1 where "game1 = g\<lparr>board := setCell (board g) (nat (n - 1)) (currentPlayer g)\<rparr>"
  define r where "r = render io gs chatId (game1\<lparr>status := Ended\<rparr>) (finalText game1 w)"
  define h where "h = handleTicTacToe io gs chatId userId userName args"
  from move_valid_terminal [where gs = gs and chatId = chatId, OF assms, of io userName]
  have h: "h = (if thrown r then r else r\<lparr>games := (games r)(chatId := None)\<rparr>)"
    by (simp add: h_def r_def game1_def Let_def)
  have t: "thrown r = (\<not> (truthyId (messageId g) \<and> editOk io) \<and> sendResult io = None)"
    by (simp add: r_def thrown_render game1_def)
  from h have th: "thrown h = thrown r" by simp
  from h have ah: "actions h = actions r" by simp
  have 1: "thrown h \<longleftrightarrow> \<not> (truthyId (messageId g) \<and> editOk io) \<and> sendResult io = None"
    using th t by simp
  have 2: "games h chatId = None
      \<and> ((\<exists>k. EditMessageText k (finalText game1 w) \<in> set (actions h))
         \<or> SendMessage (finalText game1 w) \<in> set (actions h))" if "\<not> thrown h"
  proof -
    from that th have n: "\<not> thrown r" by simp
    with h have "games h chatId = None" by simp
    moreover from rendered [of io gs chatId "game1\<lparr>status := Ended\<rparr>" "finalText game1 w"] n
    have "(\<exists>k. EditMessageText k (finalText game1 w) \<in> set (actions h))
         \<or> SendMessage (finalText game1 w) \<in> set (actions h)"
      by (simp add: ah r_def)
    ultimately show ?thesis by simp
  qed
  have gone: "games h chatId = None \<or> (\<exists>g'. games h chatId = Some g' \<and> status g' = Ended)"
  proof (cases "thrown r")
    case True
    from render_here [of io gs chatId "game1\<lparr>status := Ended\<rparr>" "finalText game1 w"]
    obtain mid where "games r chatId = Some (game1\<lparr>status := Ended, messageId := mid\<rparr>)"
      by (auto simp: r_def)
    with True h show ?thesis by simp
  next
    case False
    with h show ?thesis by simp
  qed
  have 3: "handleTicTacToe io' (games h) chatId userId' userName' args'
             = reply (games h) NoActiveGame"
    if "subCommandOf args' = Some ''move'' \<or> subCommandOf args' = None"
    using handle_no_game [where gs = "games h" and chatId = chatId, OF gone that] .
  have 4: "handleTicTacToe io' (gs(chatId := None)) chatId userId' userName' args'
             = reply (gs(chatId := None)) NoActiveGame"
    if "subCommandOf args' = Some ''move'' \<or> subCommandOf args' = None"
    using handle_no_game [where gs = "gs(chatId := None)" and chatId = chatId, OF _ that]
    by simp
  have 5: "games h = gs(chatId \<mapsto> game1\<lparr>status := Ended\<rparr>)" if "thrown h"
  proof -
    from that th have "thrown r" by simp
    with h thrown_render_games [of io gs chatId "game1\<lparr>status := Ended\<rparr>" "finalText game1 w"]
    show ?thesis by (simp add: r_def)
  qed
  have 6: "actions h
         = (case messageId g of
              None \<Rightarrow> []
            | Some k \<Rightarrow> if k \<noteq> 0 then [EditMessageText k (finalText game1 w)] else [])
           @ (if truthyId (messageId g) \<and> editOk io then []
              else [SendMessage (finalText game1 w)])"
  proof -
    have "messageId (game1\<lparr>status := Ended\<rparr>) = messageId g" by (simp add: game1_def)
    then show ?thesis by (simp add: ah r_def actions_render)
  qed
  from 1 2 3 4 5 6 show ?thesis
    unfolding h_def game1_def by blast
qed

theorem terminal_move_removes_game_counterexample:
  "beforeWinGames 7 = Some beforeWinGame
   \<and> validMove beforeWinGame 1 [''move'', ''3''] 3
   \<and> checkTicTacToeWin (setCell (board beforeWinGame) (nat (3 - 1)) (currentPlayer beforeWinGame))
       = Some (Winner MarkX)
   \<and> thrown (handleTicTacToe ioFail beforeWinGames 7 1 ''alice'' [''move'', ''3''])
   \<and> map_option status
         (games (handleTicTacToe ioFail beforeWinGames 7 1 ''alice'' [''move'', ''3'']) 7)
       = Some Ended
   \<and> map_option board
         (games (handleTicTacToe ioFail beforeWinGames 7 1 ''alice'' [''move'', ''3'']) 7)
       = Some [Some MarkX, Some MarkX, Some MarkX, None, Some MarkO, Some MarkO,
               None, None, None]"
proof -
  have "validMove beforeWinGame 1 [''move'', ''3''] 3" by code_simp
  moreover have "checkTicTacToeWin
      (setCell (board beforeWinGame) (nat (3 - 1)) (currentPlayer beforeWinGame))
       = Some (Winner MarkX)" by code_simp
  moreover have "thrown (handleTicTacToe ioFail beforeWinGames 7 1 ''alice'' [''move'', ''3''])"
    by code_simp
  moreover have "map_option status
         (games (handleTicTacToe ioFail beforeWinGames 7 1 ''alice'' [''move'', ''3'']) 7)
       = Some Ended" by code_simp
  moreover have "map_option board
         (games (handleTicTacToe ioFail beforeWinGames 7 1 ''alice'' [''move'', ''3'']) 7)
       = Some [Some MarkX, Some MarkX, Some MarkX, None, Some MarkO, Some MarkO,
               None, None, None]" by code_simp
  ultimately show ?thesis using beforeWinGames_7 by simp
qed

theorem terminal_move_removes_game_witness:
  "beforeWinGames 7 = Some beforeWinGame
   \<and> validMove beforeWinGame 1 [''move'', ''3''] 3
   \<and> checkTicTacToeWin (setCell (board beforeWinGame) (nat (3 - 1)) (currentPlayer beforeWinGame))
       = Some (Winner MarkX)
   \<and> truthyId (messageId beforeWinGame) \<and> editOk ioOk
   \<and> games (handleTicTacToe ioOk beforeWinGames 7 1 ''alice'' [''move'', ''3'']) 7 = None
   \<and> subCommandOf [''move'', ''4''] = Some ''move''
   \<and> handleTicTacToe ioOk
         (games (handleTicTacToe ioOk beforeWinGames 7 1 ''alice'' [''move'', ''3'']))
         7 2 ''bob'' [''move'', ''4'']
       = reply (games (handleTicTacToe ioOk beforeWinGames 7 1 ''alice'' [''move'', ''3'']))
           NoActiveGame
   \<and> sendResult ioFail = None \<and> editOk ioFail = False
   \<and> thrown (handleTicTacToe ioFail beforeWinGames 7 1 ''alice'' [''move'', ''3''])
   \<and> games (handleTicTacToe ioFail beforeWinGames 7 1 ''alice'' [''move'', ''3''])
       = beforeWinGames(7 \<mapsto> beforeWinGame
           \<lparr>board := setCell (board beforeWinGame) (nat (3 - 1)) (currentPlayer beforeWinGame),
            status := Ended\<rparr>)"
proof -
  have v: "validMove beforeWinGame 1 [''move'', ''3''] 3" by code_simp
  have f: "sendResult ioFail = None" "editOk ioFail = False" by code_simp+
  have w: "checkTicTacToeWin
      (setCell (board beforeWinGame) (nat (3 - 1)) (currentPlayer beforeWinGame))
       = Some (Winner MarkX)" by code_simp
  have e: "truthyId (messageId beforeWinGame)" "editOk ioOk" by code_simp+
  have s: "subCommandOf [''move'', ''4''] = Some ''move''" by code_simp
  note t = terminal_move_removes_game [where gs = beforeWinGames and chatId = 7,
      OF beforeWinGames_7 v w, of ioOk "''alice''" "[''move'', ''4'']" ioOk 2 "''bob''"]
  from t e have 1: "games (handleTicTacToe ioOk beforeWinGames 7 1 ''alice'' [''move'', ''3'']) 7
      = None" by blast
  from t s have 2: "handleTicTacToe ioOk
         (games (handleTicTacToe ioOk beforeWinGames 7 1 ''alice'' [''move'', ''3'']))
         7 2 ''bob'' [''move'', ''4'']
       = reply (games (handleTicTacToe ioOk beforeWinGames 7 1 ''alice'' [''move'', ''3'']))
           NoActiveGame" by blast
  note t' = terminal_move_removes_game [where gs = beforeWinGames and chatId = 7,
      OF beforeWinGames_7 v w, of ioFail "''alice''"]
  from t' f have 3: "thrown (handleTicTacToe ioFail beforeWinGames 7 1 ''alice'' [''move'', ''3''])"
    by simp
  from t' 3 have 4: "games (handleTicTacToe ioFail beforeWinGames 7 1 ''alice'' [''move'', ''3''])
       = beforeWinGames(7 \<mapsto> beforeWinGame
           \<lparr>board := setCell (board beforeWinGame) (nat (3 - 1)) (currentPlayer beforeWinGame),
            status := Ended\<rparr>)"
    by blast
  from beforeWinGames_7 v w e 1 s 2 f 3 4 show ?thesis by blast
qed

subsection \<open>Rejected moves (C7)\<close>

lemma handle_active_cases:
  assumes "gs chatId = Some g" "status g = Active"
  shows "handleTicTacToe io gs chatId userId userName args = reply gs NoPendingToAccept
     \<or> handleTicTacToe io gs chatId userId userName args = reply gs NoPendingToDecline
     \<or> handleTicTacToe io gs chatId userId userName args = move io gs chatId userId g args
     \<or> handleTicTacToe io gs chatId userId userName args
          = quit io gs chatId userId userName g
     \<or> handleTicTacToe io gs chatId userId userName args = showStatus io gs chatId g"
  using assms by (simp add: handleTicTacToe_def Let_def accept_def decline_def)

lemma move_board:
  assumes "cellAt (board g) i = Some m"
    and "games (move io gs chatId userId g args) chatId = Some g'"
    and "gs chatId = Some g"
  shows "cellAt (board g') i = Some m"
proof -
  consider (rej) "games (move io gs chatId userId g args) = gs"
    | (ok) n where "playerId (playerOf (players g) (currentPlayer g)) = Some userId"
        "parseIntArg (argAt args 1) = Some n" "1 \<le> n" "n \<le> 9"
        "cellAt (board g) (nat (n - 1)) = None"
    using move_cases [of io gs chatId userId g args] by auto
  then show ?thesis
  proof cases
    case rej
    with assms show ?thesis by simp
  next
    case ok
    define b' where "b' = setCell (board g) (nat (n - 1)) (currentPlayer g)"
    from cellAt_setCell_kept [OF ok(5) assms(1)] have k: "cellAt b' i = Some m"
      by (simp add: b'_def)
    show ?thesis
    proof (cases "checkTicTacToeWin b'")
      case None
      from move_nonterminal [OF ok, of io gs chatId] None
      obtain g2 msg where mv: "move io gs chatId userId g args = render io gs chatId g2 msg"
        and g2: "board g2 = b'" by (simp add: b'_def)
      from render_here [of io gs chatId g2 msg] mv assms(2) g2 k show ?thesis by auto
    next
      case (Some w)
      define g1 where "g1 = g\<lparr>board := b', status := Ended\<rparr>"
      define r where "r = render io gs chatId g1 (finalText (g\<lparr>board := b'\<rparr>) w)"
      from move_terminal [OF ok, of w io gs chatId] Some
      have mv: "move io gs chatId userId g args =
          (if thrown r then r else r\<lparr>games := (games r)(chatId := None)\<rparr>)"
        by (simp add: Let_def b'_def r_def g1_def)
      from render_here [of io gs chatId g1] obtain mid
        where "games r chatId = Some (g1\<lparr>messageId := mid\<rparr>)" by (auto simp: r_def)
      with mv assms(2) have "g' = g1\<lparr>messageId := mid\<rparr>" by (auto split: if_splits)
      with k show ?thesis by (simp add: g1_def)
    qed
  qed
qed

lemma active_board_kept:
  assumes g: "gs chatId = Some g" and a: "status g = Active"
    and c: "cellAt (board g) i = Some m"
    and res: "games (handleTicTacToe io gs chatId userId userName args) chatId = Some g'"
  shows "cellAt (board g') i = Some m"
proof -
  from handle_active_cases [where gs = gs and chatId = chatId, OF g a,
      of io userId userName args]
  show ?thesis
  proof (elim disjE)
    assume "handleTicTacToe io gs chatId userId userName args
              = move io gs chatId userId g args"
    with res move_board [where gs = gs and chatId = chatId, OF c _ g] show ?thesis by simp
  next
    assume "handleTicTacToe io gs chatId userId userName args
              = quit io gs chatId userId userName g"
    with res quit_games [of io gs chatId userId userName g] g c show ?thesis by auto
  next
    assume "handleTicTacToe io gs chatId userId userName args = showStatus io gs chatId g"
    with res showStatus_games [of io gs chatId g] g c show ?thesis by auto
  qed (use res g c in auto)
qed

lemma handle_invalid_move:
  assumes g: "gs chatId = Some g" and a: "status g = Active"
    and s: "subCommandOf args = Some ''move''"
    and i: "invalidCell (board g) (parseIntArg (argAt args 1))"
  shows "handleTicTacToe io gs chatId userId userName args =
     reply gs (if playerId (playerOf (players g) (currentPlayer g)) = Some userId
               then InvalidMove else NotYourTurn)"
proof -
  have h: "handleTicTacToe io gs chatId userId userName args = move io gs chatId userId g args"
    using handle_move [where gs = gs and chatId = chatId, OF g a s] .
  show ?thesis
  proof (cases "playerId (playerOf (players g) (currentPlayer g)) = Some userId")
    case True
    from move_invalid [OF True i] h True show ?thesis by simp
  next
    case False
    from move_notYourTurn [OF False] h False show ?thesis by simp
  qed
qed

text \<open>
  Claim C7, amended. For an active game, a move command whose parsed cell number is not a
  number, is outside 1 to 9 or names an occupied cell changes nothing in the table and
  throws nothing; its only effect is one reply, the invalid-move text when the sender
  holds the mark to move and the not-your-turn text otherwise. Whatever command arrives,
  a cell that is occupied in an active game holds the same mark afterwards for as long as
  the game is in the table.
\<close>

theorem invalid_move_rejected:
  "(gs chatId = Some g \<and> status g = Active \<and> subCommandOf args = Some ''move''
      \<and> invalidCell (board g) (parseIntArg (argAt args 1))
    \<longrightarrow> handleTicTacToe io gs chatId userId userName args =
          reply gs (if playerId (playerOf (players g) (currentPlayer g)) = Some userId
                    then InvalidMove else NotYourTurn))
   \<and> (gs chatId = Some g \<and> status g = Active \<and> cellAt (board g) i = Some m
      \<and> games (handleTicTacToe io gs chatId userId userName args) chatId = Some g'
    \<longrightarrow> cellAt (board g') i = Some m)"
  using handle_invalid_move [of gs chatId g args io userId userName]
    active_board_kept [of gs chatId g i m io userId userName args g']
  by blast

lemma playedGames_7: "playedGames 7 = Some playedGame"
  by code_simp

theorem invalid_move_rejected_counterexample:
  "playedGames 7 = Some playedGame \<and> status playedGame = Active
   \<and> parseIntArg (argAt [''move'', ''5''] 1) = Some 5
   \<and> cellAt (board playedGame) (nat (5 - 1)) = Some MarkX
   \<and> actions (handleTicTacToe ioOk playedGames 7 1 ''alice'' [''move'', ''5''])
       = [SendMessage NotYourTurn]"
proof -
  have "status playedGame = Active" by code_simp
  moreover have "parseIntArg (argAt [''move'', ''5''] 1) = Some 5" by code_simp
  moreover have "cellAt (board playedGame) (nat (5 - 1)) = Some MarkX" by code_simp
  moreover have "actions (handleTicTacToe ioOk playedGames 7 1 ''alice'' [''move'', ''5''])
       = [SendMessage NotYourTurn]" by code_simp
  ultimately show ?thesis using playedGames_7 by simp
qed

theorem invalid_move_rejected_witness:
  "playedGames 7 = Some playedGame \<and> status playedGame = Active
   \<and> subCommandOf [''move'', ''5''] = Some ''move''
   \<and> invalidCell (board playedGame) (parseIntArg (argAt [''move'', ''5''] 1))
   \<and> handleTicTacToe ioOk playedGames 7 2 ''bob'' [''move'', ''5'']
       = reply playedGames InvalidMove
   \<and> cellAt (board playedGame) 4 = Some MarkX
   \<and> (\<exists>g'. games (handleTicTacToe ioOk playedGames 7 2 ''bob'' [''move'', ''1'']) 7 = Some g'
         \<and> cellAt (board g') 4 = Some MarkX)"
proof -
  have a: "status playedGame = Active" by code_simp
  have s: "subCommandOf [''move'', ''5''] = Some ''move''" by code_simp
  have i: "invalidCell (board playedGame) (parseIntArg (argAt [''move'', ''5''] 1))"
    by code_simp
  have t: "playerId (playerOf (players playedGame) (currentPlayer playedGame)) = Some 2"
    by code_simp
  have c: "cellAt (board playedGame) 4 = Some MarkX" by code_simp
  have "map_option status (games (handleTicTacToe ioOk playedGames 7 2 ''bob'' [''move'', ''1'']) 7)
      = Some Active" by code_simp
  then obtain g' where
    g': "games (handleTicTacToe ioOk playedGames 7 2 ''bob'' [''move'', ''1'']) 7 = Some g'"
    by auto
  from invalid_move_rejected [of playedGames 7 playedGame "[''move'', ''5'']" ioOk 2 "''bob''"]
    playedGames_7 a s i t
  have 1: "handleTicTacToe ioOk playedGames 7 2 ''bob'' [''move'', ''5'']
       = reply playedGames InvalidMove" by simp
  from invalid_move_rejected [of playedGames 7 playedGame "[''move'', ''1'']" ioOk 2 "''bob''"
      4 MarkX g'] playedGames_7 a c g'
  have 2: "cellAt (board g') 4 = Some MarkX" by simp
  from playedGames_7 a s i 1 c g' 2 show ?thesis by blast
qed

subsection \<open>The cell argument (C10)\<close>


























subsection \<open>The challenger and accept (C8)\<close>

lemma handle_accept:
  assumes "subCommandOf args = Some ''accept''"
  shows "handleTicTacToe io gs chatId userId userName args = accept io gs chatId userId userName"
  using assms by (simp add: handleTicTacToe_def startsWithAt_def)

lemma accept_by_challenger:
  assumes g: "gs chatId = Some g" and p: "status g = Pending"
    and x: "playerId (playerX (players g)) = Some userId"
    and s: "subCommandOf args = Some ''accept''"
  shows "handleTicTacToe io gs chatId userId userName args =
     reply gs (if toLowerCase (name (playerO (players g))) = toLowerCase userName
               then ChallengerCannotAccept else NotTheChallengedPlayer)"
  using g p x by (simp add: handle_accept [OF s] accept_def)

lemma pending_unbound:
  assumes "reachable gs" "gs chatId = Some g" "status g = Pending"
  shows "playerId (playerO (players g)) = None"
  using reachable_inv [OF assms(1)] assms(2,3) by (auto simp: tableInv_def gameInv_def)

text \<open>
  Claim C8, amended. For every pending game of a reachable table, an accept command from
  the user whose identity is the challenger's changes nothing in the table, so the game
  stays pending with no identity in the \<open>O\<close> slot; the reply is the
  challenger-cannot-accept text when the sender's name matches the challenged name
  without regard to case, and the not-the-challenged-player text ("This challenge is not
  for you, or you are the challenger.") otherwise.
\<close>

theorem challenger_cannot_accept:
  assumes "reachable gs" and "gs chatId = Some g" and "status g = Pending"
    and "playerId (playerX (players g)) = Some userId"
    and "subCommandOf args = Some ''accept''"
  shows "handleTicTacToe io gs chatId userId userName args =
       reply gs (if toLowerCase (name (playerO (players g))) = toLowerCase userName
                 then ChallengerCannotAccept else NotTheChallengedPlayer)
     \<and> games (handleTicTacToe io gs chatId userId userName args) = gs
     \<and> playerId (playerO (players g)) = None"
  using accept_by_challenger [where gs = gs and chatId = chatId, OF assms(2-5)]
    pending_unbound [where gs = gs and chatId = chatId, OF assms(1-3)]
  by simp

theorem challenger_cannot_accept_counterexample:
  "pendingGames 7 = Some pendingGame \<and> status pendingGame = Pending
   \<and> playerId (playerX (players pendingGame)) = Some 1
   \<and> actions (handleTicTacToe ioOk pendingGames 7 1 ''alice'' [''accept''])
       = [SendMessage NotTheChallengedPlayer]"
proof -
  have "status pendingGame = Pending" by code_simp
  moreover have "playerId (playerX (players pendingGame)) = Some 1" by code_simp
  moreover have "actions (handleTicTacToe ioOk pendingGames 7 1 ''alice'' [''accept''])
       = [SendMessage NotTheChallengedPlayer]" by code_simp
  ultimately show ?thesis using pendingGames_7 by simp
qed

theorem challenger_cannot_accept_witness:
  "reachable pendingGames \<and> pendingGames 7 = Some pendingGame \<and> status pendingGame = Pending
   \<and> playerId (playerX (players pendingGame)) = Some 1
   \<and> subCommandOf [''accept''] = Some ''accept''
   \<and> toLowerCase (name (playerO (players pendingGame))) = toLowerCase ''Bob''
   \<and> handleTicTacToe ioOk pendingGames 7 1 ''Bob'' [''accept'']
       = reply pendingGames ChallengerCannotAccept
   \<and> handleTicTacToe ioOk pendingGames 7 1 ''alice'' [''accept'']
       = reply pendingGames NotTheChallengedPlayer
   \<and> playerId (playerO (players pendingGame)) = None"
proof -
  have p: "status pendingGame = Pending" by code_simp
  have x: "playerId (playerX (players pendingGame)) = Some 1" by code_simp
  have s: "subCommandOf [''accept''] = Some ''accept''" by code_simp
  have n: "toLowerCase (name (playerO (players pendingGame))) = toLowerCase ''Bob''"
    by code_simp
  have n': "toLowerCase (name (playerO (players pendingGame))) \<noteq> toLowerCase ''alice''"
    by code_simp
  note t = challenger_cannot_accept [where gs = pendingGames and chatId = 7,
      OF reachable_pendingGames pendingGames_7 p x s]
  from t [of ioOk "''Bob''"] n
  have 1: "handleTicTacToe ioOk pendingGames 7 1 ''Bob'' [''accept'']
       = reply pendingGames ChallengerCannotAccept" by simp
  from t [of ioOk "''alice''"] n'
  have 2: "handleTicTacToe ioOk pendingGames 7 1 ''alice'' [''accept'']
       = reply pendingGames NotTheChallengedPlayer" by simp
  from t [of ioOk "''alice''"] have 3: "playerId (playerO (players pendingGame)) = None"
    by simp
  from reachable_pendingGames pendingGames_7 p x s n 1 2 3 show ?thesis by blast
qed

subsection \<open>Quit (C4)\<close>

lemma handle_quit:
  assumes "gs chatId = Some g" "status g = Active"
    "subCommandOf args = Some ''quit'' \<or> subCommandOf args = Some ''end''"
  shows "handleTicTacToe io gs chatId userId userName args
           = quit io gs chatId userId userName g"
  using assms by (auto simp: handleTicTacToe_def startsWithAt_def)

lemma quit_by_player:
  assumes g: "gs chatId = Some g" and a: "status g = Active"
    and s: "subCommandOf args = Some ''quit'' \<or> subCommandOf args = Some ''end''"
    and p: "playerId (playerX (players g)) = Some userId
            \<or> (playerId (playerO (players g)) = Some userId \<and> userId \<noteq> 0)"
    and io: "sendResult io \<noteq> None"
  shows "games (handleTicTacToe io gs chatId userId userName args) chatId = None
     \<and> SendMessage (EndedBy userName)
          \<in> set (actions (handleTicTacToe io gs chatId userId userName args))
     \<and> \<not> thrown (handleTicTacToe io gs chatId userId userName args)"
proof -
  from p have "playerId (playerX (players g)) = Some userId
      \<or> (truthyId (playerId (playerO (players g)))
           \<and> playerId (playerO (players g)) = Some userId)"
    by (auto simp: truthyId_def)
  with io show ?thesis
    unfolding handle_quit [where gs = gs and chatId = chatId, OF g a s]
    by (auto simp: quit_def)
qed

lemma handle_not_active:
  assumes "gs chatId = Some g" "status g = Pending"
    and "subCommandOf args \<noteq> Some ''accept''" "subCommandOf args \<noteq> Some ''decline''"
  shows "handleTicTacToe io gs chatId userId userName args = reply gs NoActiveGame"
  using assms by (simp add: handleTicTacToe_def)

lemma quit_pending:
  assumes "gs chatId = Some g" "status g = Pending"
    and "subCommandOf args = Some ''quit'' \<or> subCommandOf args = Some ''end''"
  shows "handleTicTacToe io gs chatId userId userName args = reply gs NoActiveGame"
  using assms(3) handle_not_active [where gs = gs and chatId = chatId, OF assms(1,2)]
  by auto

lemma decline_by_challenger:
  assumes "gs chatId = Some g" "status g = Pending"
    and "subCommandOf args = Some ''decline''"
    and "playerId (playerX (players g)) = Some userId"
    and "sendResult io \<noteq> None"
  shows "games (handleTicTacToe io gs chatId userId userName args) chatId = None"
  using assms by (auto simp: handleTicTacToe_def startsWithAt_def decline_def)

lemma quit_send_rejected:
  assumes g: "gs chatId = Some g" and a: "status g = Active"
    and s: "subCommandOf args = Some ''quit'' \<or> subCommandOf args = Some ''end''"
    and p: "playerId (playerX (players g)) = Some userId
            \<or> (playerId (playerO (players g)) = Some userId \<and> userId \<noteq> 0)"
    and io: "sendResult io = None"
  shows "games (handleTicTacToe io gs chatId userId userName args) = gs
     \<and> thrown (handleTicTacToe io gs chatId userId userName args)"
proof -
  from p have "playerId (playerX (players g)) = Some userId
      \<or> (truthyId (playerId (playerO (players g)))
           \<and> playerId (playerO (players g)) = Some userId)"
    by (auto simp: truthyId_def)
  with io show ?thesis
    unfolding handle_quit [where gs = gs and chatId = chatId, OF g a s]
    by (auto simp: quit_def)
qed

lemma decline_send_rejected:
  assumes "gs chatId = Some g" "status g = Pending"
    and "subCommandOf args = Some ''decline''"
    and "playerId (playerX (players g)) = Some userId"
    and "sendResult io = None"
  shows "games (handleTicTacToe io gs chatId userId userName args) = gs
     \<and> thrown (handleTicTacToe io gs chatId userId userName args)"
  using assms by (auto simp: handleTicTacToe_def startsWithAt_def decline_def)

text \<open>
  Claim C4, amended. For every active game, a quit (or end) command from a bound player
  (the identity of the \<open>X\<close> slot, or the non-zero identity of the \<open>O\<close> slot) sends the
  farewell text and, when that send resolves, removes the game from the table; when that
  send is rejected the handler throws and the table stays as it is. For a pending game
  the same command is answered with the no-active-game reply and leaves the table as it
  is. A decline from the challenger of a pending game removes the game when the send of
  its notice resolves, and throws and leaves the table as it is when that send is
  rejected.
\<close>

theorem quit_removes_active_game:
  "(gs chatId = Some g \<and> status g = Active
      \<and> (subCommandOf args = Some ''quit'' \<or> subCommandOf args = Some ''end'')
      \<and> (playerId (playerX (players g)) = Some userId
          \<or> (playerId (playerO (players g)) = Some userId \<and> userId \<noteq> 0))
      \<and> sendResult io \<noteq> None
    \<longrightarrow> games (handleTicTacToe io gs chatId userId userName args) chatId = None
        \<and> SendMessage (EndedBy userName)
             \<in> set (actions (handleTicTacToe io gs chatId userId userName args))
        \<and> \<not> thrown (handleTicTacToe io gs chatId userId userName args))
   \<and> (gs chatId = Some g \<and> status g = Pending
      \<and> (subCommandOf args = Some ''quit'' \<or> subCommandOf args = Some ''end'')
    \<longrightarrow> handleTicTacToe io gs chatId userId userName args = reply gs NoActiveGame)
   \<and> (gs chatId = Some g \<and> status g = Pending \<and> subCommandOf args = Some ''decline''
      \<and> playerId (playerX (players g)) = Some userId \<and> sendResult io \<noteq> None
    \<longrightarrow> games (handleTicTacToe io gs chatId userId userName args) chatId = None)
   \<and> (gs chatId = Some g \<and> status g = Active
      \<and> (subCommandOf args = Some ''quit'' \<or> subCommandOf args = Some ''end'')
      \<and> (playerId (playerX (players g)) = Some userId
          \<or> (playerId (playerO (players g)) = Some userId \<and> userId \<noteq> 0))
      \<and> sendResult io = None
    \<longrightarrow> games (handleTicTacToe io gs chatId userId userName args) = gs
        \<and> thrown (handleTicTacToe io gs chatId userId userName args))
   \<and> (gs chatId = Some g \<and> status g = Pending \<and> subCommandOf args = Some ''decline''
      \<and> playerId (playerX (players g)) = Some userId \<and> sendResult io = None
    \<longrightarrow> games (handleTicTacToe io gs chatId userId userName args) = gs
        \<and> thrown (handleTicTacToe io gs chatId userId userName args))"
  using quit_by_player [of gs chatId g args userId io userName]
    quit_pending [of gs chatId g args io userId userName]
    decline_by_challenger [of gs chatId g args userId io userName]
    quit_send_rejected [of gs chatId g args userId io userName]
    decline_send_rejected [of gs chatId g args userId io userName]
  by blast

theorem quit_removes_active_game_counterexample:
  "pendingGames 7 = Some pendingGame \<and> status pendingGame = Pending
   \<and> playerId (playerX (players pendingGame)) = Some 1
   \<and> subCommandOf [''quit''] = Some ''quit''
   \<and> actions (handleTicTacToe ioOk pendingGames 7 1 ''alice'' [''quit''])
       = [SendMessage NoActiveGame]
   \<and> games (handleTicTacToe ioOk pendingGames 7 1 ''alice'' [''quit'']) 7 = Some pendingGame"
proof -
  have "status pendingGame = Pending" by code_simp
  moreover have "playerId (playerX (players pendingGame)) = Some 1" by code_simp
  moreover have "subCommandOf [''quit''] = Some ''quit''" by code_simp
  moreover have "actions (handleTicTacToe ioOk pendingGames 7 1 ''alice'' [''quit''])
       = [SendMessage NoActiveGame]" by code_simp
  moreover have "games (handleTicTacToe ioOk pendingGames 7 1 ''alice'' [''quit'']) 7
       = Some pendingGame" by code_simp
  ultimately show ?thesis using pendingGames_7 by simp
qed

theorem quit_removes_active_game_witness:
  "activeGames 7 = Some activeGame \<and> status activeGame = Active
   \<and> subCommandOf [''quit''] = Some ''quit'' \<and> subCommandOf [''END''] = Some ''end''
   \<and> playerId (playerX (players activeGame)) = Some 1
   \<and> playerId (playerO (players activeGame)) = Some 2
   \<and> sendResult ioOk = Some 100
   \<and> games (handleTicTacToe ioOk activeGames 7 1 ''alice'' [''quit'']) 7 = None
   \<and> games (handleTicTacToe ioOk activeGames 7 2 ''bob'' [''END'']) 7 = None
   \<and> pendingGames 7 = Some pendingGame \<and> status pendingGame = Pending
   \<and> handleTicTacToe ioOk pendingGames 7 1 ''alice'' [''quit'']
       = reply pendingGames NoActiveGame
   \<and> subCommandOf [''decline''] = Some ''decline''
   \<and> playerId (playerX (players pendingGame)) = Some 1
   \<and> games (handleTicTacToe ioOk pendingGames 7 1 ''alice'' [''decline'']) 7 = None
   \<and> sendResult ioFail = None
   \<and> games (handleTicTacToe ioFail activeGames 7 1 ''alice'' [''quit'']) = activeGames
   \<and> thrown (handleTicTacToe ioFail activeGames 7 1 ''alice'' [''quit''])
   \<and> games (handleTicTacToe ioFail pendingGames 7 1 ''alice'' [''decline'']) = pendingGames
   \<and> thrown (handleTicTacToe ioFail pendingGames 7 1 ''alice'' [''decline''])"
proof -
  have a: "status activeGame = Active" by code_simp
  have iof: "sendResult ioFail = None" by code_simp
  have s: "subCommandOf [''quit''] = Some ''quit''" "subCommandOf [''END''] = Some ''end''"
    "subCommandOf [''decline''] = Some ''decline''" by code_simp+
  have x: "playerId (playerX (players activeGame)) = Some 1" by code_simp
  have o: "playerId (playerO (players activeGame)) = Some 2" by code_simp
  have io: "sendResult ioOk = Some 100" by code_simp
  have p: "status pendingGame = Pending" by code_simp
  have px: "playerId (playerX (players pendingGame)) = Some 1" by code_simp
  from quit_removes_active_game [of activeGames 7 activeGame "[''quit'']" 1 ioOk "''alice''"]
    activeGames_7 a s(1) x io
  have 1: "games (handleTicTacToe ioOk activeGames 7 1 ''alice'' [''quit'']) 7 = None"
    by simp
  from quit_removes_active_game [of activeGames 7 activeGame "[''END'']" 2 ioOk "''bob''"]
    activeGames_7 a s(2) o io
  have 2: "games (handleTicTacToe ioOk activeGames 7 2 ''bob'' [''END'']) 7 = None"
    by simp
  from quit_removes_active_game [of pendingGames 7 pendingGame "[''quit'']" 1 ioOk "''alice''"]
    pendingGames_7 p s(1)
  have 3: "handleTicTacToe ioOk pendingGames 7 1 ''alice'' [''quit'']
       = reply pendingGames NoActiveGame" by simp
  from quit_removes_active_game [of pendingGames 7 pendingGame "[''decline'']" 1 ioOk
      "''alice''"] pendingGames_7 p s(3) px io
  have 4: "games (handleTicTacToe ioOk pendingGames 7 1 ''alice'' [''decline'']) 7 = None"
    by simp
  from quit_removes_active_game [of activeGames 7 activeGame "[''quit'']" 1 ioFail "''alice''"]
    activeGames_7 a s(1) x iof
  have 5: "games (handleTicTacToe ioFail activeGames 7 1 ''alice'' [''quit'']) = activeGames
     \<and> thrown (handleTicTacToe ioFail activeGames 7 1 ''alice'' [''quit''])"
    by simp
  from quit_removes_active_game [of pendingGames 7 pendingGame "[''decline'']" 1 ioFail
      "''alice''"] pendingGames_7 p s(3) px iof
  have 6: "games (handleTicTacToe ioFail pendingGames 7 1 ''alice'' [''decline''])
       = pendingGames
     \<and> thrown (handleTicTacToe ioFail pendingGames 7 1 ''alice'' [''decline''])"
    by simp
  from activeGames_7 a s x o io 1 2 pendingGames_7 p 3 px 4 iof 5 6 show ?thesis by blast
qed

subsection \<open>The status query (C5) and a second challenge (C6)\<close>

lemma deadText_simps [simp]:
  "deadText GameAlreadyInProgress" "deadText (GamePending x)"
  "\<not> deadText MentionAnOpponent" "\<not> deadText AgainstYourself" "\<not> deadText (Invitation a b)"
  "\<not> deadText NoPendingToAccept" "\<not> deadText NotTheChallengedPlayer"
  "\<not> deadText ChallengerCannotAccept" "\<not> deadText (GameStarted t n k)"
  "\<not> deadText NoPendingToDecline" "\<not> deadText (Declined u)" "\<not> deadText NotPartOfChallenge"
  "\<not> deadText NoActiveGame" "\<not> deadText NotYourTurn" "\<not> deadText InvalidMove"
  "\<not> deadText (ItsADraw t)" "\<not> deadText (PlayerWins t n k)" "\<not> deadText (Turn t n k)"
  "\<not> deadText (EndedBy u)" "\<not> deadText NotAParticipant"
  by (simp_all add: deadText_def)

lemma deleteOld_sends: "SendMessage m \<notin> set (deleteOld k)"
  by (auto simp: deleteOld_def split: option.splits)

lemma render_sends:
  "SendMessage m \<in> set (actions (render io gs c g content)) \<Longrightarrow> m = content"
  by (auto simp: actions_render split: option.splits if_splits)

lemma challenge_sends:
  assumes "case gs chatId of None \<Rightarrow> True | Some game \<Rightarrow> status game = Ended"
    and "SendMessage m \<in> set (actions (challenge io gs chatId userId userName sc args))"
  shows "\<not> deadText m"
  using assms
  by (auto simp: challenge_def reply_def Let_def split: option.splits if_splits)

lemma accept_sends:
  "SendMessage m \<in> set (actions (accept io gs chatId userId userName)) \<Longrightarrow> \<not> deadText m"
  by (auto simp: accept_def reply_def Let_def deleteOld_sends split: option.splits if_splits)

lemma decline_sends:
  "SendMessage m \<in> set (actions (decline io gs chatId userId userName)) \<Longrightarrow> \<not> deadText m"
  by (auto simp: decline_def reply_def Let_def deleteOld_sends split: option.splits if_splits)

lemma quit_sends:
  "SendMessage m \<in> set (actions (quit io gs chatId userId userName g)) \<Longrightarrow> \<not> deadText m"
  by (auto simp: quit_def reply_def Let_def deleteOld_sends split: option.splits if_splits)

lemma showStatus_sends:
  "status g = Active \<Longrightarrow>
   SendMessage m \<in> set (actions (showStatus io gs chatId g)) \<Longrightarrow> \<not> deadText m"
  by (auto simp: showStatus_def dest: render_sends)

lemma move_sends:
  assumes "SendMessage m \<in> set (actions (move io gs chatId userId g args))"
  shows "\<not> deadText m"
proof -
  consider (turn) "move io gs chatId userId g args = reply gs NotYourTurn"
    | (inv) "move io gs chatId userId g args = reply gs InvalidMove"
    | (ok) n where "playerId (playerOf (players g) (currentPlayer g)) = Some userId"
        "parseIntArg (argAt args 1) = Some n" "1 \<le> n" "n \<le> 9"
        "cellAt (board g) (nat (n - 1)) = None"
    using move_cases [of io gs chatId userId g args] by auto
  then show ?thesis
  proof cases
    case turn
    with assms show ?thesis by (simp add: reply_def)
  next
    case inv
    with assms show ?thesis by (simp add: reply_def)
  next
    case ok
    show ?thesis
    proof (cases "checkTicTacToeWin (setCell (board g) (nat (n - 1)) (currentPlayer g))")
      case None
      from move_nonterminal [OF ok None, of io gs chatId] assms show ?thesis
        by (auto dest: render_sends)
    next
      case (Some w)
      have "\<not> deadText (finalText g' w)" for g'
        by (cases w) (simp_all add: finalText_def)
      with move_terminal [OF ok Some, of io gs chatId] assms show ?thesis
        by (auto simp: Let_def split: if_splits dest: render_sends)
    qed
  qed
qed

lemma dead_texts_never_sent:
  assumes "SendMessage m \<in> set (actions (handleTicTacToe io gs chatId userId userName args))"
  shows "\<not> deadText m"
proof (cases "(subCommandOf args = Some ''start''
               \<or> (case subCommandOf args of None \<Rightarrow> False | Some s \<Rightarrow> startsWithAt s))
            \<and> (case gs chatId of None \<Rightarrow> True | Some game \<Rightarrow> status game = Ended)")
  case True
  then have "handleTicTacToe io gs chatId userId userName args
      = challenge io gs chatId userId userName (subCommandOf args) args"
    by (simp add: handleTicTacToe_def)
  with True assms challenge_sends show ?thesis by auto
next
  case False
  then have "handleTicTacToe io gs chatId userId userName args
      = accept io gs chatId userId userName
    \<or> handleTicTacToe io gs chatId userId userName args
      = decline io gs chatId userId userName
    \<or> handleTicTacToe io gs chatId userId userName args = reply gs NoActiveGame
    \<or> (\<exists>g. status g = Active
          \<and> (handleTicTacToe io gs chatId userId userName args
                = move io gs chatId userId g args
              \<or> handleTicTacToe io gs chatId userId userName args
                = quit io gs chatId userId userName g
              \<or> handleTicTacToe io gs chatId userId userName args
                = showStatus io gs chatId g))"
    by (cases "gs chatId") (auto simp: handleTicTacToe_def Let_def)
  with assms accept_sends decline_sends quit_sends showStatus_sends move_sends
  show ?thesis by (auto simp: reply_def)
qed

lemma status_query:
  assumes "subCommandOf args = None"
  shows "gs chatId = None \<Longrightarrow>
           handleTicTacToe io gs chatId userId userName args = reply gs NoActiveGame"
    and "gs chatId = Some g \<Longrightarrow> status g = Pending \<Longrightarrow>
           handleTicTacToe io gs chatId userId userName args = reply gs NoActiveGame"
    and "gs chatId = Some g \<Longrightarrow> status g = Active \<Longrightarrow>
           handleTicTacToe io gs chatId userId userName args =
             render io gs chatId g
               (Turn (getTicTacToeBoardText (board g) (Some (players g)))
                  (name (playerOf (players g) (currentPlayer g))) (currentPlayer g))"
  using assms by (simp_all add: handleTicTacToe_def showStatus_def)

lemma challenge_keeps_game:
  assumes g: "gs chatId = Some g" and live: "status g \<noteq> Ended"
    and s: "subCommandOf args = Some sc" "sc = ''start'' \<or> startsWithAt sc"
  shows "\<exists>g'. games (handleTicTacToe io gs chatId userId userName args) chatId = Some g'
           \<and> board g' = board g \<and> players g' = players g \<and> status g' = status g
           \<and> currentPlayer g' = currentPlayer g"
proof -
  from s(2) have n: "sc \<noteq> ''accept''" "sc \<noteq> ''decline''" "sc \<noteq> ''move''"
    "sc \<noteq> ''quit''" "sc \<noteq> ''end''"
    by (auto simp: startsWithAt_def)
  show ?thesis
  proof (cases "status g = Active")
    case True
    with g s(1) n have "handleTicTacToe io gs chatId userId userName args
        = showStatus io gs chatId g"
      by (simp add: handleTicTacToe_def)
    with True have h: "handleTicTacToe io gs chatId userId userName args
        = render io gs chatId g
            (Turn (getTicTacToeBoardText (board g) (Some (players g)))
               (name (playerOf (players g) (currentPlayer g))) (currentPlayer g))"
      by (simp add: showStatus_def)
    from render_here [of io gs chatId g] obtain mid where
      "games (handleTicTacToe io gs chatId userId userName args) chatId
         = Some (g\<lparr>messageId := mid\<rparr>)"
      unfolding h by blast
    then show ?thesis by simp
  next
    case False
    with g s(1) n live have "handleTicTacToe io gs chatId userId userName args
        = reply gs NoActiveGame"
      by (simp add: handleTicTacToe_def)
    with g show ?thesis by simp
  qed
qed

lemma GameAlreadyInProgress_never_sent:
  "SendMessage GameAlreadyInProgress
     \<notin> set (actions (handleTicTacToe io gs chatId userId userName args))"
  using dead_texts_never_sent [of GameAlreadyInProgress io gs chatId userId userName args]
  by auto

lemma GamePending_never_sent:
  "SendMessage (GamePending x)
     \<notin> set (actions (handleTicTacToe io gs chatId userId userName args))"
  using dead_texts_never_sent [of "GamePending x" io gs chatId userId userName args]
  by auto

text \<open>
  Claim C5, at concrete inputs. A status query (no sub-argument) in a chat with no game
  is answered with the no-active-game reply, and for the active game of chat 7 it edits
  the stored message 100 to the board and the turn of alice (\<open>X\<close>). For the pending game
  of chat 7 the query is answered with the no-active-game reply and not with the waiting
  notice: the guard of line 367 returns before the branch of lines 445 to 447.
\<close>

theorem status_query_examples:
  "subCommandOf [] = None
   \<and> actions (handleTicTacToe ioOk Map.empty 7 2 ''bob'' []) = [SendMessage NoActiveGame]
   \<and> activeGames 7 = Some activeGame \<and> status activeGame = Active
   \<and> actions (handleTicTacToe ioOk activeGames 7 2 ''bob'' [])
       = [EditMessageText 100
            (Turn (getTicTacToeBoardText (board activeGame) (Some (players activeGame)))
               ''alice'' MarkX)]
   \<and> pendingGames 7 = Some pendingGame \<and> status pendingGame = Pending
   \<and> actions (handleTicTacToe ioOk pendingGames 7 2 ''bob'' []) = [SendMessage NoActiveGame]"
proof -
  have "subCommandOf [] = None" by code_simp
  moreover have "actions (handleTicTacToe ioOk Map.empty 7 2 ''bob'' [])
      = [SendMessage NoActiveGame]" by code_simp
  moreover have "status activeGame = Active" by code_simp
  moreover have "actions (handleTicTacToe ioOk activeGames 7 2 ''bob'' [])
       = [EditMessageText 100
            (Turn (getTicTacToeBoardText (board activeGame) (Some (players activeGame)))
               ''alice'' MarkX)]" by code_simp
  moreover have "status pendingGame = Pending" by code_simp
  moreover have "actions (handleTicTacToe ioOk pendingGames 7 2 ''bob'' [])
      = [SendMessage NoActiveGame]" by code_simp
  ultimately show ?thesis using activeGames_7 pendingGames_7 by simp
qed

text \<open>
  Claim C6, at concrete inputs. A new challenge in chat 7 while its game is pending is
  answered with the no-active-game reply, and while its game is active with the status
  rendering; in both cases the game stays as it is, and in neither is the
  already-in-progress text sent: the test of line 295 keeps the command out of the
  branch that holds the check of lines 296 to 299.
\<close>

theorem challenge_while_game_exists:
  "pendingGames 7 = Some pendingGame \<and> status pendingGame = Pending
   \<and> subCommandOf [''@carol''] = Some ''@carol''
   \<and> actions (handleTicTacToe ioOk pendingGames 7 3 ''dave'' [''@carol''])
       = [SendMessage NoActiveGame]
   \<and> games (handleTicTacToe ioOk pendingGames 7 3 ''dave'' [''@carol'']) 7 = Some pendingGame
   \<and> activeGames 7 = Some activeGame \<and> status activeGame = Active
   \<and> subCommandOf [''start'', ''@carol''] = Some ''start''
   \<and> actions (handleTicTacToe ioOk activeGames 7 3 ''dave'' [''start'', ''@carol''])
       = [EditMessageText 100
            (Turn (getTicTacToeBoardText (board activeGame) (Some (players activeGame)))
               ''alice'' MarkX)]
   \<and> games (handleTicTacToe ioOk activeGames 7 3 ''dave'' [''start'', ''@carol'']) 7
       = Some activeGame"
proof -
  have "status pendingGame = Pending" by code_simp
  moreover have "subCommandOf [''@carol''] = Some ''@carol''" by code_simp
  moreover have "actions (handleTicTacToe ioOk pendingGames 7 3 ''dave'' [''@carol''])
       = [SendMessage NoActiveGame]" by code_simp
  moreover have "games (handleTicTacToe ioOk pendingGames 7 3 ''dave'' [''@carol'']) 7
       = Some pendingGame" by code_simp
  moreover have "status activeGame = Active" by code_simp
  moreover have "subCommandOf [''start'', ''@carol''] = Some ''start''" by code_simp
  moreover have "actions (handleTicTacToe ioOk activeGames 7 3 ''dave'' [''start'', ''@carol''])
       = [EditMessageText 100
            (Turn (getTicTacToeBoardText (board activeGame) (Some (players activeGame)))
               ''alice'' MarkX)]" by code_simp
  moreover have "games (handleTicTacToe ioOk activeGames 7 3 ''dave'' [''start'', ''@carol'']) 7
       = Some activeGame" by code_simp
  ultimately show ?thesis using activeGames_7 pendingGames_7 by simp
qed

end
